theory Spec2Isabelle
  imports Main "HOL-Library.Sublist" "HOL-Library.List_Lexorder" "HOL-Library.Char_ord"
begin

section \<open>Strings\<close>

text \<open>
  Python strings are modelled as \<open>string\<close> (lists of 8-bit characters); the development
  covers ASCII text.  The newline character is \<open>nl\<close>.
\<close>

definition nl :: char where
  "nl = CHR 0x0A"

text \<open>\<^verbatim>\<open>s.split(c)\<close> for a one-character separator: the result is never empty.\<close>

fun cons_first :: "char \<Rightarrow> string list \<Rightarrow> string list" where
  "cons_first x [] = [[x]]"
| "cons_first x (w # ws) = (x # w) # ws"

fun str_split :: "char \<Rightarrow> string \<Rightarrow> string list" where
  "str_split c [] = [[]]"
| "str_split c (x # xs) =
     (if x = c then [] # str_split c xs else cons_first x (str_split c xs))"

text \<open>\<^verbatim>\<open>s.startswith(p)\<close>.\<close>

definition startswith :: "string \<Rightarrow> string \<Rightarrow> bool" where
  "startswith s p = prefix p s"

text \<open>\<^verbatim>\<open>sep.join(xs)\<close>.\<close>

fun join :: "string \<Rightarrow> string list \<Rightarrow> string" where
  "join sep [] = []"
| "join sep [x] = x"
| "join sep (x # y # ys) = x @ sep @ join sep (y # ys)"

text \<open>\<^verbatim>\<open>p in s\<close> on strings: \<open>p\<close> occurs in \<open>s\<close> as a contiguous substring.\<close>

fun str_contains :: "string \<Rightarrow> string \<Rightarrow> bool" where
  "str_contains [] p = (p = [])"
| "str_contains (c # cs) p = (prefix p (c # cs) \<or> str_contains cs p)"

text \<open>\<^verbatim>\<open>s.lower()\<close> on ASCII text: the letters A to Z move to a to z.\<close>

definition lower_char :: "char \<Rightarrow> char" where
  "lower_char c =
     (case map_of (zip ''ABCDEFGHIJKLMNOPQRSTUVWXYZ'' ''abcdefghijklmnopqrstuvwxyz'') c of
        Some d \<Rightarrow> d
      | None \<Rightarrow> c)"

definition lower :: "string \<Rightarrow> string" where
  "lower s = map lower_char s"

section \<open>Errors and integers\<close>

datatype py_error = IndexError | ValueError

definition is_digit :: "char \<Rightarrow> bool" where
  "is_digit c = (c \<in> set ''0123456789'')"

definition digit_val :: "char \<Rightarrow> int" where
  "digit_val c = (case map_of (zip ''0123456789'' [0, 1, 2, 3, 4, 5, 6, 7, 8, 9]) c of
                    Some d \<Rightarrow> d
                  | None \<Rightarrow> 0)"

text \<open>\<^verbatim>\<open>str(n)\<close> for an integer.\<close>

fun str_of_nat :: "nat \<Rightarrow> string" where
  "str_of_nat n =
     (if n < 10 then [''0123456789'' ! n]
      else str_of_nat (n div 10) @ [''0123456789'' ! (n mod 10)])"

definition str_of_int :: "int \<Rightarrow> string" where
  "str_of_int i = (if i < 0 then CHR ''-'' # str_of_nat (nat (- i)) else str_of_nat (nat i))"

definition int_of_digits :: "string \<Rightarrow> int" where
  "int_of_digits s = foldl (\<lambda>n c. 10 * n + digit_val c) 0 s"

text \<open>
  \<^verbatim>\<open>int(s)\<close> on the text of a regular-expression group: a non-empty run of decimal
  digits is read in base ten, anything else is a \<^verbatim>\<open>ValueError\<close>.  (Python's \<^verbatim>\<open>int\<close>
  accepts more, signs and blanks among them; the parser only ever passes it the text
  matched by \<^verbatim>\<open>\d+\<close> or \<^verbatim>\<open>\d*\<close>.)  The interpreter converts at most
  \<^verbatim>\<open>sys.get_int_max_str_digits()\<close> digits, 4300 unless changed, which the repository
  does not do; a longer run, leading zeros counted, is a \<^verbatim>\<open>ValueError\<close> too.
\<close>

definition int_max_str_digits :: nat where
  "int_max_str_digits = 4300"

definition py_int :: "string \<Rightarrow> py_error + int" where
  "py_int s =
     (if s \<noteq> [] \<and> list_all is_digit s \<and> length s \<le> int_max_str_digits
      then Inr (int_of_digits s) else Inl ValueError)"

section \<open>The data model of \<^verbatim>\<open>diff_parser.py\<close>\<close>

text \<open>
  The parser builds nested dictionaries with fixed keys; each shape is a record.
  A line dictionary \<^verbatim>\<open>{'type': ..., 'content': ...}\<close> has one of three types.
\<close>

datatype line_kind = Addition | Deletion | Context

record diff_line =
  ltype :: line_kind
  content :: string

record info_dict =
  old_start :: int
  old_count :: int
  new_start :: int
  new_count :: int

text \<open>
  A change dictionary \<^verbatim>\<open>{'type': 'hunk', 'info': ..., 'lines': [...]}\<close>; the info
  dictionary is either empty (\<open>None\<close>) or carries the four numbers.
\<close>

record change =
  ctype :: string
  info :: "info_dict option"
  lines :: "diff_line list"

record file_change =
  old_path :: string
  new_path :: string
  changes :: "change list"
  additions :: int
  deletions :: int

section \<open>The two regular expressions\<close>

text \<open>
  \<^verbatim>\<open>re.search(r'diff --git a/(.*) b/(.*)', line)\<close>.  The search takes the leftmost start,
  the first occurrence of \<^verbatim>\<open>diff --git a/\<close> in the line (if the text after the first
  occurrence holds no \<^verbatim>\<open> b/\<close>, no later one does).  The first group is greedy, so
  the separator is the last \<^verbatim>\<open> b/\<close> of the remaining text; the second group is
  the rest of the line.  The lines come from a split at newlines, so \<^verbatim>\<open>.\<close> matches
  every character of them.
\<close>

fun find_after :: "string \<Rightarrow> string \<Rightarrow> string option" where
  "find_after p [] = (if p = [] then Some [] else None)"
| "find_after p (c # cs) =
     (if prefix p (c # cs) then Some (drop (length p) (c # cs)) else find_after p cs)"

fun rsplit_at :: "string \<Rightarrow> string \<Rightarrow> (string \<times> string) option" where
  "rsplit_at sep [] = (if sep = [] then Some ([], []) else None)"
| "rsplit_at sep (c # cs) =
     (case rsplit_at sep cs of
        Some (a, b) \<Rightarrow> Some (c # a, b)
      | None \<Rightarrow> if prefix sep (c # cs) then Some ([], drop (length sep) (c # cs)) else None)"

definition match_file_marker :: "string \<Rightarrow> (string \<times> string) option" where
  "match_file_marker line =
     (case find_after ''diff --git a/'' line of
        None \<Rightarrow> None
      | Some rest \<Rightarrow> rsplit_at '' b/'' rest)"

text \<open>
  \<^verbatim>\<open>re.search(r'@@ -(\d+),?(\d*) \+(\d+),?(\d*) @@', line)\<close>.  At one start position
  the match is forced: after \<^verbatim>\<open>@@ -\<close> the first group is the whole run of digits
  (a shorter one would leave a digit where the pattern wants a comma, a blank or the
  second group, and the second group would then take those digits without changing
  what follows); an optional comma is followed by the second run of digits, which
  may be empty; the same again after \<^verbatim>\<open> +\<close>, and \<^verbatim>\<open> @@\<close> closes the match.
\<close>

definition digits_of :: "string \<Rightarrow> string \<times> string" where
  "digits_of s = (takeWhile is_digit s, dropWhile is_digit s)"

text \<open>The part \<^verbatim>\<open>,?(\d*)\<close>: the text of the group and the text left after it.\<close>

definition count_of :: "string \<Rightarrow> string \<times> string" where
  "count_of s = (case s of c # t \<Rightarrow> (if c = CHR '','' then digits_of t else ([], s)) | [] \<Rightarrow> ([], s))"

definition hunk_match_at :: "string \<Rightarrow> (string \<times> string \<times> string \<times> string) option" where
  "hunk_match_at s =
     (if prefix ''@@ -'' s then
        (case digits_of (drop 4 s) of (g1, r1) \<Rightarrow>
           if g1 = [] then None
           else (case count_of r1 of (g2, r2) \<Rightarrow>
             if prefix '' +'' r2 then
               (case digits_of (drop 2 r2) of (g3, r3) \<Rightarrow>
                  if g3 = [] then None
                  else (case count_of r3 of (g4, r4) \<Rightarrow>
                    if prefix '' @@'' r4 then Some (g1, g2, g3, g4) else None))
             else None))
      else None)"

fun hunk_search :: "string \<Rightarrow> (string \<times> string \<times> string \<times> string) option" where
  "hunk_search [] = hunk_match_at []"
| "hunk_search (c # cs) =
     (case hunk_match_at (c # cs) of Some g \<Rightarrow> Some g | None \<Rightarrow> hunk_search cs)"

section \<open>\<^verbatim>\<open>DiffParser._parse_hunk_header\<close>\<close>

text \<open>An omitted count (an empty group) is 1; a line with no match gives the empty dictionary.\<close>

definition group_or_one :: "string \<Rightarrow> py_error + int" where
  "group_or_one g = (if g \<noteq> [] then py_int g else Inr 1)"

definition parse_hunk_header :: "string \<Rightarrow> py_error + info_dict option" where
  "parse_hunk_header line =
     (case hunk_search line of
        None \<Rightarrow> Inr None
      | Some (g1, g2, g3, g4) \<Rightarrow>
          (case py_int g1 of Inl e \<Rightarrow> Inl e | Inr a \<Rightarrow>
           (case group_or_one g2 of Inl e \<Rightarrow> Inl e | Inr b \<Rightarrow>
            (case py_int g3 of Inl e \<Rightarrow> Inl e | Inr c \<Rightarrow>
             (case group_or_one g4 of Inl e \<Rightarrow> Inl e | Inr d \<Rightarrow>
                Inr (Some \<lparr>old_start = a, old_count = b, new_start = c, new_count = d\<rparr>))))))"

section \<open>\<^verbatim>\<open>DiffParser.parse_diff\<close>\<close>

text \<open>
  The loop keeps a reference to the current file dictionary, appends that reference to
  \<^verbatim>\<open>files\<close> and goes on mutating the dictionary through \<^verbatim>\<open>current_file\<close>.  The
  state therefore has a store of file dictionaries (the address of a dictionary is its
  index in \<open>heap\<close>), the list \<open>files\<close> of addresses and the address \<open>current_file\<close>
  (\<open>None\<close> for Python's \<^verbatim>\<open>None\<close>).  A file dictionary always has five keys, so
  \<^verbatim>\<open>if current_file:\<close> tests for \<^verbatim>\<open>None\<close> only.
\<close>

record pstate =
  heap :: "file_change list"
  files :: "nat list"
  current_file :: "nat option"

definition new_file :: "string \<Rightarrow> string \<Rightarrow> file_change" where
  "new_file old new =
     \<lparr>old_path = old, new_path = new, changes = [], additions = 0, deletions = 0\<rparr>"

text \<open>\<^verbatim>\<open>current_file['changes'].append({'type': 'hunk', 'info': hunk_info, 'lines': []})\<close>\<close>

definition add_hunk :: "info_dict option \<Rightarrow> file_change \<Rightarrow> file_change" where
  "add_hunk hi f = f\<lparr>changes := changes f @ [\<lparr>ctype = ''hunk'', info = hi, lines = []\<rparr>]\<rparr>"

text \<open>
  \<^verbatim>\<open>last_change = current_file['changes'][-1]; last_change['lines'].append(l)\<close>:
  indexing an empty list raises \<^verbatim>\<open>IndexError\<close>.
\<close>

definition append_line :: "diff_line \<Rightarrow> file_change \<Rightarrow> py_error + file_change" where
  "append_line l f =
     (case changes f of
        [] \<Rightarrow> Inl IndexError
      | _ # _ \<Rightarrow>
          Inr (f\<lparr>changes := butlast (changes f) @
                 [(last (changes f))\<lparr>lines := lines (last (changes f)) @ [l]\<rparr>]\<rparr>))"

definition code_line :: "string \<Rightarrow> file_change \<Rightarrow> py_error + file_change" where
  "code_line line f =
     (if startswith line ''+'' then
        (case append_line \<lparr>ltype = Addition, content = drop 1 line\<rparr> f of
           Inl e \<Rightarrow> Inl e
         | Inr f' \<Rightarrow> Inr (f'\<lparr>additions := additions f' + 1\<rparr>))
      else if startswith line ''-'' then
        (case append_line \<lparr>ltype = Deletion, content = drop 1 line\<rparr> f of
           Inl e \<Rightarrow> Inl e
         | Inr f' \<Rightarrow> Inr (f'\<lparr>deletions := deletions f' + 1\<rparr>))
      else if startswith line '' '' then
        append_line \<lparr>ltype = Context, content = drop 1 line\<rparr> f
      else Inr f)"

text \<open>One iteration of the loop over the lines.\<close>

definition parse_line :: "pstate \<Rightarrow> string \<Rightarrow> py_error + pstate" where
  "parse_line st line =
     (if startswith line ''diff --git'' then
        (let st1 = (case current_file st of
                      Some a \<Rightarrow> st\<lparr>files := files st @ [a]\<rparr>
                    | None \<Rightarrow> st)
         in case match_file_marker line of
              Some (old, new) \<Rightarrow>
                Inr (st1\<lparr>heap := heap st1 @ [new_file old new],
                         current_file := Some (length (heap st1))\<rparr>)
            | None \<Rightarrow> Inr st1)
      else if startswith line ''+++'' \<or> startswith line ''---'' then Inr st
      else if startswith line ''@@'' then
        (case current_file st of
           Some a \<Rightarrow>
             (case parse_hunk_header line of
                Inl e \<Rightarrow> Inl e
              | Inr hi \<Rightarrow> Inr (st\<lparr>heap := (heap st)[a := add_hunk hi (heap st ! a)]\<rparr>))
         | None \<Rightarrow> Inr st)
      else
        (case current_file st of
           Some a \<Rightarrow>
             if changes (heap st ! a) \<noteq> [] then
               (case code_line line (heap st ! a) of
                  Inl e \<Rightarrow> Inl e
                | Inr f' \<Rightarrow> Inr (st\<lparr>heap := (heap st)[a := f']\<rparr>))
             else Inr st
         | None \<Rightarrow> Inr st))"

fun parse_lines :: "pstate \<Rightarrow> string list \<Rightarrow> py_error + pstate" where
  "parse_lines st [] = Inr st"
| "parse_lines st (l # ls) =
     (case parse_line st l of Inl e \<Rightarrow> Inl e | Inr st' \<Rightarrow> parse_lines st' ls)"

definition init_state :: pstate where
  "init_state = \<lparr>heap = [], files = [], current_file = None\<rparr>"

text \<open>After the loop the current file is appended once more; the result lists the dictionaries the references point to.\<close>

definition finish :: "pstate \<Rightarrow> file_change list" where
  "finish st =
     map (\<lambda>a. heap st ! a)
       (case current_file st of Some a \<Rightarrow> files st @ [a] | None \<Rightarrow> files st)"

definition parse_diff :: "string \<Rightarrow> py_error + file_change list" where
  "parse_diff diff_content =
     (case parse_lines init_state (str_split nl diff_content) of
        Inl e \<Rightarrow> Inl e
      | Inr st \<Rightarrow> Inr (finish st))"

section \<open>The helpers of \<^verbatim>\<open>DiffParser\<close>\<close>

text \<open>
  \<^verbatim>\<open>d.get(key, default)\<close>, given the result of looking the key up.  In a file
  dictionary built by \<open>parse_diff\<close> every key is present, so each lookup below is \<open>Some\<close>
  of the field.
\<close>

fun dict_get :: "'a option \<Rightarrow> 'a \<Rightarrow> 'a" where
  "dict_get (Some v) d = v"
| "dict_get None d = d"

text \<open>\<^verbatim>\<open>file.get('new_path', file.get('old_path', ''))\<close>\<close>

definition file_path :: "file_change \<Rightarrow> string" where
  "file_path file = dict_get (Some (new_path file)) (dict_get (Some (old_path file)) [])"

text \<open>The set \<^verbatim>\<open>extensions\<close> when the loop of \<^verbatim>\<open>get_file_extensions\<close> ends.\<close>

definition add_extension :: "file_change \<Rightarrow> string set \<Rightarrow> string set" where
  "add_extension file extensions =
     (let path = file_path file
      in if CHR ''.'' \<in> set path
         then insert (lower (last (str_split (CHR ''.'') path))) extensions
         else extensions)"

definition extension_set :: "file_change list \<Rightarrow> string set" where
  "extension_set fs = fold add_extension fs {}"

text \<open>
  \<^verbatim>\<open>return list(extensions)\<close>: Python lists a set in an order of its own, which is the
  parameter \<open>to_list\<close>.
\<close>

definition get_file_extensions :: "(string set \<Rightarrow> string list) \<Rightarrow> file_change list \<Rightarrow> string list" where
  "get_file_extensions to_list fs = to_list (extension_set fs)"

definition get_total_changes :: "file_change list \<Rightarrow> int \<times> int" where
  "get_total_changes fs =
     (sum_list (map (\<lambda>f. dict_get (Some (additions f)) 0) fs),
      sum_list (map (\<lambda>f. dict_get (Some (deletions f)) 0) fs))"

definition filter_significant_changes :: "file_change list \<Rightarrow> int \<Rightarrow> file_change list" where
  "filter_significant_changes fs min_changes =
     filter (\<lambda>f. dict_get (Some (additions f)) 0 + dict_get (Some (deletions f)) 0 \<ge> min_changes) fs"

text \<open>The call without the second argument: \<^verbatim>\<open>min_changes = 5\<close>.\<close>

definition filter_significant_changes_default :: "file_change list \<Rightarrow> file_change list" where
  "filter_significant_changes_default fs = filter_significant_changes fs 5"

subsection \<open>\<^verbatim>\<open>extract_context_lines\<close>\<close>

text \<open>
  \<^verbatim>\<open>xs[start:stop]\<close>: a negative bound counts from the end of the list, and both bounds
  are clipped to the list.
\<close>

definition slice_bound :: "nat \<Rightarrow> int \<Rightarrow> nat" where
  "slice_bound n i = (if i < 0 then nat (max 0 (i + int n)) else min (nat i) n)"

definition py_slice :: "'a list \<Rightarrow> int \<Rightarrow> int \<Rightarrow> 'a list" where
  "py_slice xs start stop =
     take (slice_bound (length xs) stop - slice_bound (length xs) start)
       (drop (slice_bound (length xs) start) xs)"

record hunk_context =
  hunk_info :: "info_dict option"
  relevant_lines :: "diff_line list"

text \<open>One iteration of \<^verbatim>\<open>for i, line in enumerate(lines)\<close>.\<close>

definition context_step :: "int \<Rightarrow> diff_line list \<Rightarrow> nat \<times> diff_line \<Rightarrow> diff_line list \<Rightarrow> diff_line list" where
  "context_step context_lines ls p relevant =
     (case p of (i, line) \<Rightarrow>
        if ltype line \<in> {Addition, Deletion} then
          (let start = max 0 (int i - context_lines);
               stop = min (int (length ls)) (int i + context_lines + 1)
           in relevant @ py_slice ls start stop)
        else relevant)"

definition relevant_of :: "int \<Rightarrow> diff_line list \<Rightarrow> diff_line list" where
  "relevant_of context_lines ls = fold (context_step context_lines ls) (enumerate 0 ls) []"

text \<open>One iteration of \<^verbatim>\<open>for change in file.get('changes', [])\<close>.\<close>

definition hunk_step :: "int \<Rightarrow> change \<Rightarrow> hunk_context list \<Rightarrow> hunk_context list" where
  "hunk_step context_lines c acc =
     (if ctype c = ''hunk'' then
        (let hc = \<lparr>hunk_info = info c, relevant_lines = relevant_of context_lines (lines c)\<rparr>
         in if relevant_lines hc \<noteq> [] then acc @ [hc] else acc)
      else acc)"

definition file_context :: "int \<Rightarrow> file_change \<Rightarrow> hunk_context list" where
  "file_context context_lines file =
     fold (hunk_step context_lines) (dict_get (Some (changes file)) []) []"

definition extract_context_lines :: "file_change list \<Rightarrow> int \<Rightarrow> (string \<rightharpoonup> hunk_context list)" where
  "extract_context_lines fs context_lines =
     fold (\<lambda>file context_data. context_data(file_path file \<mapsto> file_context context_lines file))
       fs Map.empty"

text \<open>The call without the second argument: \<^verbatim>\<open>context_lines = 3\<close>.\<close>

definition extract_context_lines_default :: "file_change list \<Rightarrow> (string \<rightharpoonup> hunk_context list)" where
  "extract_context_lines_default fs = extract_context_lines fs 3"

section \<open>\<^verbatim>\<open>PromptFormatter.create_code_review_prompt\<close>\<close>

text \<open>The lines of the template after the diff text.\<close>

definition prompt_tail :: "string list" where
  \<open>prompt_tail =
     [''```'',
      '''',
      ''## Review Guidelines'',
      ''Please provide a thorough code review focusing on:'',
      '''',
      ''### 1. Code Quality'',
      ''- Code style and consistency'',
      ''- Best practices for the identified programming languages'',
      ''- Code organization and structure'',
      ''- Naming conventions'',
      '''',
      ''### 2. Functionality & Logic'',
      ''- Correctness of the implementation'',
      ''- Edge cases and error handling'',
      ''- Algorithm efficiency'',
      ''- Business logic accuracy'',
      '''',
      ''### 3. Security'',
      ''- Input validation'',
      ''- Authentication/authorization'',
      ''- Data sanitization'',
      ''- Potential vulnerabilities'',
      '''',
      ''### 4. Performance'',
      ''- Time complexity considerations'',
      ''- Memory usage'',
      ''- Database query optimization (if applicable)'',
      ''- Caching opportunities'',
      '''',
      ''### 5. Maintainability'',
      ''- Code readability'',
      ''- Documentation and comments'',
      ''- Test coverage'',
      ''- Modularity and reusability'',
      '''',
      ''### 6. Dependencies & Integration'',
      ''- New dependencies introduced'',
      ''- API compatibility'',
      ''- Breaking changes'',
      ''- Migration considerations'',
      '''',
      ''## Response Format'',
      ''Please structure your response as a JSON object with the following format:'',
      '''',
      ''```json'',
      ''{'',
      ''    "review_summary": "Brief overall assessment (2-3 sentences)",'',
      ''    "suggestions": ['',
      ''        "Specific, actionable suggestions for improvement",'',
      ''        "Focus on the most important issues first"'',
      ''    ],'',
      ''    "severity": "low|medium|high",'',
      ''    "requires_changes": true/false,'',
      ''    "strengths": ['',
      ''        "Positive aspects of the code changes"'',
      ''    ],'',
      ''    "risks": ['',
      ''        "Potential risks or concerns"'',
      ''    ]'',
      ''}'',
      ''```'',
      '''',
      ''## Additional Context'',
      ''- Focus on significant issues rather than minor style preferences'',
      ''- Provide specific line references when possible'',
      ''- Consider the impact on existing codebase'',
      ''- Be constructive and educational in your feedback'']\<close>

text \<open>
  An argument left out is \<open>None\<close>: \<^verbatim>\<open>pr_description\<close> is then the empty string and
  \<^verbatim>\<open>file_extensions\<close> is \<^verbatim>\<open>None\<close>.  \<^verbatim>\<open>if not file_extensions\<close> holds for \<^verbatim>\<open>None\<close>
  and for the empty list alike.
\<close>

definition effective_extensions :: "(string set \<Rightarrow> string list) \<Rightarrow> file_change list \<Rightarrow> string list option \<Rightarrow> string list" where
  "effective_extensions to_list fs file_extensions =
     (case file_extensions of
        Some (e # es) \<Rightarrow> e # es
      | _ \<Rightarrow> get_file_extensions to_list fs)"

text \<open>
  The f-string, line by line, with its placeholders filled in: the title, the description
  or its placeholder, the number of files, the two totals, the rendered extensions and
  the diff text.  The literal opens and closes with a newline.
\<close>

definition prompt_lines ::
  "string \<Rightarrow> string \<Rightarrow> nat \<Rightarrow> int \<Rightarrow> int \<Rightarrow> string list \<Rightarrow> string \<Rightarrow> string list" where
  \<open>prompt_lines pr_title pr_description n_files total_additions total_deletions file_extensions
       diff_content =
     [[],
      ''# Code Review Request'',
      [],
      ''## Pull Request Information'',
      ''**Title:** '' @ pr_title,
      ''**Description:** '' @
         (if pr_description \<noteq> [] then pr_description else ''No description provided''),
      [],
      ''## Change Summary'',
      ''- **Files Modified:** '' @ str_of_nat n_files,
      ''- **Total Additions:** '' @ str_of_int total_additions,
      ''- **Total Deletions:** '' @ str_of_int total_deletions,
      ''- **Languages/Extensions:** '' @
         (if file_extensions \<noteq> [] then join '', '' file_extensions else ''Mixed''),
      [],
      ''## Code Changes'',
      ''```diff'',
      diff_content]
     @ prompt_tail @ [[]]\<close>

definition create_code_review_prompt ::
  "(string set \<Rightarrow> string list) \<Rightarrow> string \<Rightarrow> string \<Rightarrow> string option \<Rightarrow> string list option \<Rightarrow> py_error + string" where
  "create_code_review_prompt to_list diff_content pr_title pr_description file_extensions =
     (case parse_diff diff_content of
        Inl e \<Rightarrow> Inl e
      | Inr fs \<Rightarrow>
          (case get_total_changes fs of (total_additions, total_deletions) \<Rightarrow>
             Inr (join [nl]
               (prompt_lines pr_title (dict_get pr_description []) (length fs)
                  total_additions total_deletions
                  (effective_extensions to_list fs file_extensions) diff_content))))"

text \<open>Whether the call returned a document in which the text occurs.\<close>

definition document_contains :: "py_error + string \<Rightarrow> string \<Rightarrow> bool" where
  "document_contains r needle = (case r of Inr doc \<Rightarrow> str_contains doc needle | Inl e \<Rightarrow> False)"

section \<open>Auxiliary definitions for the properties\<close>

text \<open>The numbers a successful match of the hunk-header expression stands for.\<close>

definition info_of_groups :: "string \<times> string \<times> string \<times> string \<Rightarrow> info_dict" where
  "info_of_groups g = (case g of (g1, g2, g3, g4) \<Rightarrow>
     \<lparr>old_start = int_of_digits g1,
      old_count = (if g2 = [] then 1 else int_of_digits g2),
      new_start = int_of_digits g3,
      new_count = (if g4 = [] then 1 else int_of_digits g4)\<rparr>)"

definition groups_ok :: "string \<times> string \<times> string \<times> string \<Rightarrow> bool" where
  "groups_ok g = (case g of (g1, g2, g3, g4) \<Rightarrow>
     g1 \<noteq> [] \<and> list_all is_digit g1 \<and> list_all is_digit g2 \<and>
     g3 \<noteq> [] \<and> list_all is_digit g3 \<and> list_all is_digit g4)"

text \<open>
  The hunk-header shape \<^verbatim>\<open>@@ -a,b +c,d @@\<close>: \<open>a\<close> and \<open>c\<close> are numbers, and a count is
  either left out with its comma (\<open>None\<close>) or follows a comma, where its digits may
  be missing (the expression is \<^verbatim>\<open>,?(\d*)\<close>).  A line has the shape when the header
  occurs in it, as \<^verbatim>\<open>re.search\<close> looks for it anywhere in the line.
\<close>

definition number :: "string \<Rightarrow> bool" where
  "number s = (s \<noteq> [] \<and> list_all is_digit s)"

definition count_ok :: "string option \<Rightarrow> bool" where
  "count_ok c = (case c of None \<Rightarrow> True | Some b \<Rightarrow> list_all is_digit b)"

definition count_text :: "string option \<Rightarrow> string" where
  "count_text c = (case c of None \<Rightarrow> [] | Some b \<Rightarrow> CHR '','' # b)"

definition count_value :: "string option \<Rightarrow> int" where
  "count_value c = (case c of None \<Rightarrow> 1 | Some b \<Rightarrow> if b = [] then 1 else int_of_digits b)"

definition hunk_header_text :: "string \<Rightarrow> string option \<Rightarrow> string \<Rightarrow> string option \<Rightarrow> string" where
  "hunk_header_text a b c d = ''@@ -'' @ a @ count_text b @ '' +'' @ c @ count_text d @ '' @@''"

definition header_shape :: "string \<Rightarrow> bool" where
  "header_shape line =
     (\<exists>pre a b c d post. number a \<and> count_ok b \<and> number c \<and> count_ok d \<and>
        line = pre @ hunk_header_text a b c d @ post)"

text \<open>The window of lines cut out around index \<open>i\<close>, and the lines that get one.\<close>

definition window :: "int \<Rightarrow> diff_line list \<Rightarrow> nat \<Rightarrow> diff_line list" where
  "window cl ls i = py_slice ls (max 0 (int i - cl)) (min (int (length ls)) (int i + cl + 1))"

definition changed :: "diff_line \<Rightarrow> bool" where
  "changed l = (ltype l \<in> {Addition, Deletion})"

text \<open>
  The rule of the specification for the path of a file, "\<^verbatim>\<open>new_path\<close> if non-empty else
  \<^verbatim>\<open>old_path\<close>", and the extensions it would give; \<open>extension_of\<close> is the lower-cased text
  after the last dot.
\<close>

definition spec_file_path :: "file_change \<Rightarrow> string" where
  "spec_file_path f = (if new_path f \<noteq> [] then new_path f else old_path f)"

definition extension_of :: "string \<Rightarrow> string" where
  "extension_of path = lower (last (str_split (CHR ''.'') path))"

definition spec_extension_set :: "file_change list \<Rightarrow> string set" where
  "spec_extension_set fs =
     set (map extension_of (filter (\<lambda>p. CHR ''.'' \<in> set p) (map spec_file_path fs)))"

text \<open>
  The addition and deletion lines of a diff text, counted after the specification's
  description of the scan: a \<^verbatim>\<open>diff --git\<close> marker of the two-path form starts a file
  (any other leaves the file context as it is), \<^verbatim>\<open>+++\<close> and \<^verbatim>\<open>---\<close> lines are skipped,
  a \<^verbatim>\<open>@@\<close> line starts a hunk when there is a file, and any other line counts, when
  there is a file with a hunk, as an addition if it starts with \<open>+\<close> and as a deletion if
  it starts with \<open>-\<close>.
\<close>

fun spec_scan :: "bool \<Rightarrow> bool \<Rightarrow> string list \<Rightarrow> int \<times> int" where
  "spec_scan file hunk [] = (0, 0)"
| "spec_scan file hunk (l # ls) =
     (if startswith l ''diff --git'' then
        (if match_file_marker l \<noteq> None then spec_scan True False ls else spec_scan file hunk ls)
      else if startswith l ''+++'' \<or> startswith l ''---'' then spec_scan file hunk ls
      else if startswith l ''@@'' then spec_scan file (file \<or> hunk) ls
      else if file \<and> hunk then
        (if startswith l ''+'' then (case spec_scan file hunk ls of (n, m) \<Rightarrow> (n + 1, m))
         else if startswith l ''-'' then (case spec_scan file hunk ls of (n, m) \<Rightarrow> (n, m + 1))
         else spec_scan file hunk ls)
      else spec_scan file hunk ls)"

definition spec_count_changes :: "string \<Rightarrow> int \<times> int" where
  "spec_count_changes diff_content = spec_scan False False (str_split nl diff_content)"

text \<open>
  For the counters of a file: the number of lines of one kind in its hunks.  For the
  states of the loop: \<open>flush_current\<close> is \<^verbatim>\<open>if current_file: files.append(current_file)\<close>;
  in a state with valid references every address points into the store; in a \<open>linear\<close>
  state, the only kind reached while every marker matches, \<open>files\<close> lists the store up to
  the current file, which is its last entry.
\<close>

definition count_kind :: "line_kind \<Rightarrow> file_change \<Rightarrow> int" where
  "count_kind k f = int (length (filter (\<lambda>l. ltype l = k) (concat (map lines (changes f)))))"

definition counters_ok :: "file_change \<Rightarrow> bool" where
  "counters_ok f = (additions f = count_kind Addition f \<and> deletions f = count_kind Deletion f)"

definition flush_current :: "pstate \<Rightarrow> pstate" where
  "flush_current st =
     (case current_file st of Some a \<Rightarrow> st\<lparr>files := files st @ [a]\<rparr> | None \<Rightarrow> st)"

definition linear :: "pstate \<Rightarrow> bool" where
  "linear st =
     (case current_file st of
        None \<Rightarrow> heap st = [] \<and> files st = []
      | Some a \<Rightarrow> Suc a = length (heap st) \<and> files st = [0..<a])"

definition in_file :: "pstate \<Rightarrow> bool" where
  "in_file st = (current_file st \<noteq> None)"

definition in_hunk :: "pstate \<Rightarrow> bool" where
  "in_hunk st = (case current_file st of None \<Rightarrow> False | Some a \<Rightarrow> changes (heap st ! a) \<noteq> [])"

definition add2 :: "int \<times> int \<Rightarrow> int \<times> int \<Rightarrow> int \<times> int" where
  "add2 p q = (fst p + fst q, snd p + snd q)"

definition good_marker :: "string \<Rightarrow> bool" where
  "good_marker l = (startswith l ''diff --git'' \<longrightarrow> match_file_marker l \<noteq> None)"

definition refs_ok :: "pstate \<Rightarrow> bool" where
  "refs_ok st =
     (list_all (\<lambda>a. a < length (heap st)) (files st) \<and>
      (case current_file st of None \<Rightarrow> True | Some a \<Rightarrow> a < length (heap st)))"

text \<open>
  Numbers that \<^verbatim>\<open>int\<close> converts: the groups of a match, and the numbers of a header, with
  at most \<open>int_max_str_digits\<close> digits each.  A line is a short header when the match the
  search finds in it, if any, has such groups.
\<close>

definition groups_short :: "string \<times> string \<times> string \<times> string \<Rightarrow> bool" where
  "groups_short g = (case g of (g1, g2, g3, g4) \<Rightarrow>
     length g1 \<le> int_max_str_digits \<and> length g2 \<le> int_max_str_digits \<and>
     length g3 \<le> int_max_str_digits \<and> length g4 \<le> int_max_str_digits)"

definition short_header :: "string \<Rightarrow> bool" where
  "short_header line = (case hunk_search line of None \<Rightarrow> True | Some g \<Rightarrow> groups_short g)"

definition count_digits :: "string option \<Rightarrow> string" where
  "count_digits c = (case c of None \<Rightarrow> [] | Some b \<Rightarrow> b)"

text \<open>
  The window of the specification around index \<open>i\<close>: the lines at the indices from
  \<open>max(0, i - context_lines)\<close> up to, not including, \<open>min(len, i + context_lines + 1)\<close>; and
  the relevant lines it gives.
\<close>

definition spec_window :: "int \<Rightarrow> diff_line list \<Rightarrow> nat \<Rightarrow> diff_line list" where
  "spec_window cl ls i =
     map ((!) ls) [nat (max 0 (int i - cl))..<nat (min (int (length ls)) (int i + cl + 1))]"

definition spec_relevant_of :: "int \<Rightarrow> diff_line list \<Rightarrow> diff_line list" where
  "spec_relevant_of cl ls =
     concat (map (spec_window cl ls) (filter (\<lambda>i. changed (ls ! i)) [0..<length ls]))"

text \<open>A hunk-header line with a number of 4301 digits.\<close>

definition long_header :: string where
  "long_header = ''@@ -'' @ replicate 4301 (CHR ''1'') @ '' +1 @@''"

section \<open>Facts about the string functions\<close>

lemma length_str_split: "length (str_split c s) = Suc (length (filter (\<lambda>x. x = c) s))"
proof (induction s)
  case Nil
  then show ?case by simp
next
  case (Cons x xs)
  then show ?case by (cases "str_split c xs") auto
qed

lemma str_split_nonempty: "str_split c s \<noteq> []"
  using length_str_split [of c s] by auto

lemma str_split_none: "c \<notin> set s \<Longrightarrow> str_split c s = [s]"
  by (induction s) auto

lemma last_cons_first: "2 \<le> length yss \<Longrightarrow> last (cons_first x yss) = last yss"
  by (cases yss) auto

lemma last_str_split:
  "c \<in> set s \<Longrightarrow> \<exists>pre. s = pre @ c # last (str_split c s) \<and> c \<notin> set (last (str_split c s))"
proof (induction s)
  case Nil
  then show ?case by simp
next
  case (Cons x xs)
  show ?case
  proof (cases "c \<in> set xs")
    case True
    then obtain pre where pre: "xs = pre @ c # last (str_split c xs)"
        and notin: "c \<notin> set (last (str_split c xs))"
      using Cons.IH by blast
    from True have "filter (\<lambda>x. x = c) xs \<noteq> []"
      by (simp add: filter_empty_conv)
    then have "2 \<le> length (str_split c xs)"
      by (cases "filter (\<lambda>x. x = c) xs") (auto simp: length_str_split)
    then have "last (str_split c (x # xs)) = last (str_split c xs)"
      by (simp add: last_cons_first str_split_nonempty)
    moreover from pre have "x # xs = (x # pre) @ c # last (str_split c xs)" by simp
    ultimately show ?thesis using notin by metis
  next
    case False
    with Cons.prems have "x = c" by simp
    with False have "last (str_split c (x # xs)) = xs"
      by (simp add: str_split_none)
    with False \<open>x = c\<close> show ?thesis by (intro exI[of _ "[]"]) simp
  qed
qed

lemma str_split_append: "c \<notin> set u \<Longrightarrow> str_split c (u @ c # v) = u # str_split c v"
proof (induction u)
  case Nil
  then show ?case by simp
next
  case (Cons x u)
  then show ?case by (cases "str_split c (u @ c # v)") auto
qed

lemma startswith_first:
  "startswith line (c # p) \<Longrightarrow> startswith line [c]"
  by (cases line) (auto simp: startswith_def)

lemma nth_update_if:
  "xs[a := v] ! b = (if a = b \<and> a < length xs then v else xs ! b)"
  by (cases "a < length xs") (auto simp: nth_list_update list_update_beyond)

lemma str_contains_iff: "str_contains s p \<longleftrightarrow> (\<exists>a b. s = a @ p @ b)"
proof (induction s)
  case Nil
  then show ?case by auto
next
  case (Cons c cs)
  show ?case
  proof
    assume "str_contains (c # cs) p"
    then consider "prefix p (c # cs)" | "str_contains cs p" by auto
    then show "\<exists>a b. c # cs = a @ p @ b"
    proof cases
      case 1
      then obtain b where "c # cs = p @ b" by (auto simp: prefix_def)
      then have "c # cs = [] @ p @ b" by simp
      then show ?thesis by blast
    next
      case 2
      then obtain a b where "cs = a @ p @ b" using Cons.IH by blast
      then have "c # cs = (c # a) @ p @ b" by simp
      then show ?thesis by blast
    qed
  next
    assume "\<exists>a b. c # cs = a @ p @ b"
    then obtain a b where ab: "c # cs = a @ p @ b" by blast
    show "str_contains (c # cs) p"
    proof (cases a)
      case Nil
      with ab have "prefix p (c # cs)" by (simp add: prefix_def)
      then show ?thesis by simp
    next
      case (Cons x a')
      with ab have "cs = a' @ p @ b" by simp
      then have "str_contains cs p" using Cons.IH by blast
      then show ?thesis by simp
    qed
  qed
qed

lemma join_contains: "x \<in> set xs \<Longrightarrow> \<exists>a b. join sep xs = a @ x @ b"
proof (induction sep xs rule: join.induct)
  case (1 sep)
  then show ?case by simp
next
  case (2 sep y)
  then have "join sep [y] = [] @ x @ []" by simp
  then show ?case by blast
next
  case (3 sep y z zs)
  show ?case
  proof (cases "x = y")
    case True
    then have "join sep (y # z # zs) = [] @ x @ (sep @ join sep (z # zs))" by simp
    then show ?thesis by blast
  next
    case False
    with 3 obtain a b where "join sep (z # zs) = a @ x @ b" by auto
    then have "join sep (y # z # zs) = (y @ sep @ a) @ x @ b" by simp
    then show ?thesis by blast
  qed
qed

lemma str_contains_join: "x \<in> set xs \<Longrightarrow> str_contains (join sep xs) x"
  by (simp add: str_contains_iff join_contains)

lemma split_at_char:
  assumes "u @ c # v = a @ p @ b" "c \<notin> set p" "p \<noteq> []"
  shows "(\<exists>b'. u = a @ p @ b') \<or> (\<exists>a'. v = a' @ p @ b)"
proof -
  from assms(1) consider us where "u = a @ us" "us @ c # v = p @ b"
    | us where "u @ us = a" "c # v = us @ p @ b"
    by (auto simp: append_eq_append_conv2)
  then show ?thesis
  proof cases
    case 1
    from 1(2) consider ws where "us = p @ ws" | ws where "us @ ws = p" "c # v = ws @ b"
      by (auto simp: append_eq_append_conv2)
    then show ?thesis
    proof cases
      case 1
      with \<open>u = a @ us\<close> show ?thesis by auto
    next
      case 2
      show ?thesis
      proof (cases ws)
        case Nil
        with 2 \<open>u = a @ us\<close> show ?thesis by auto
      next
        case (Cons w ws')
        with 2 assms(2) show ?thesis by auto
      qed
    qed
  next
    case 2
    show ?thesis
    proof (cases us)
      case Nil
      with 2 assms(2,3) show ?thesis by (cases p) auto
    next
      case (Cons w us')
      with 2 show ?thesis by auto
    qed
  qed
qed

lemma join_contains_line:
  assumes "c \<notin> set p" "p \<noteq> []"
  shows "str_contains (join [c] ls) p \<Longrightarrow> list_ex (\<lambda>l. str_contains l p) ls"
proof (induction "[c]" ls rule: join.induct)
  case 1
  with assms(2) show ?case by simp
next
  case (2 y)
  then show ?case by simp
next
  case (3 y z zs)
  from "3.prems" obtain a b where "y @ c # join [c] (z # zs) = a @ p @ b"
    by (auto simp: str_contains_iff)
  from split_at_char [OF this assms]
  have "str_contains y p \<or> str_contains (join [c] (z # zs)) p"
    by (auto simp: str_contains_iff)
  with 3 show ?case by auto
qed

lemma not_contains_join:
  assumes "c \<notin> set p" "p \<noteq> []" "\<not> list_ex (\<lambda>l. str_contains l p) ls"
  shows "\<not> str_contains (join [c] ls) p"
  using assms join_contains_line by blast

section \<open>The match of the hunk-header expression\<close>

lemma digits_of_digits: "digits_of s = (g, r) \<Longrightarrow> list_all is_digit g"
  by (auto simp: digits_of_def list_all_iff dest: set_takeWhileD)

lemma count_of_digits: "count_of s = (g, r) \<Longrightarrow> list_all is_digit g"
  by (auto simp: count_of_def split: list.splits if_splits dest: digits_of_digits)

lemma hunk_match_at_groups: "hunk_match_at s = Some g \<Longrightarrow> groups_ok g"
  unfolding hunk_match_at_def groups_ok_def
  by (auto split: if_splits prod.splits dest: digits_of_digits count_of_digits)

lemma hunk_search_groups: "hunk_search s = Some g \<Longrightarrow> groups_ok g"
  by (induction s) (auto split: option.splits dest: hunk_match_at_groups)

lemma parse_hunk_header_eq:
  "parse_hunk_header line =
     (case hunk_search line of
        None \<Rightarrow> Inr None
      | Some g \<Rightarrow> if groups_short g then Inr (Some (info_of_groups g)) else Inl ValueError)"
proof (cases "hunk_search line")
  case None
  then show ?thesis by (simp add: parse_hunk_header_def)
next
  case (Some g)
  then have "groups_ok g" by (rule hunk_search_groups)
  with Some show ?thesis
    by (cases g) (auto simp: parse_hunk_header_def groups_ok_def groups_short_def
        info_of_groups_def py_int_def group_or_one_def)
qed

lemma parse_hunk_header_short:
  "short_header line \<Longrightarrow>
     parse_hunk_header line = Inr (map_option info_of_groups (hunk_search line))"
  by (cases "hunk_search line") (simp_all add: parse_hunk_header_eq short_header_def)

lemma parse_hunk_header_error:
  "parse_hunk_header line = Inl e \<Longrightarrow> e = ValueError \<and> \<not> short_header line"
  by (cases "hunk_search line")
     (simp_all add: parse_hunk_header_eq short_header_def split: if_splits)

lemma digits_of_append:
  assumes "list_all is_digit a" "\<And>x t. r = x # t \<Longrightarrow> \<not> is_digit x"
  shows "digits_of (a @ r) = (a, r)"
proof -
  have "takeWhile is_digit r = []" "dropWhile is_digit r = r"
    using assms(2) by (cases r; simp)+
  with assms(1) show ?thesis
    by (simp add: digits_of_def list_all_iff takeWhile_append2 dropWhile_append2)
qed

lemma count_of_text:
  assumes "count_ok b" "\<And>x t. r = x # t \<Longrightarrow> \<not> is_digit x \<and> x \<noteq> CHR '',''"
  shows "count_of (count_text b @ r) = (case b of None \<Rightarrow> [] | Some x \<Rightarrow> x, r)"
proof (cases b)
  case None
  then show ?thesis using assms(2) by (cases r) (auto simp: count_of_def count_text_def)
next
  case (Some x)
  then have "digits_of (x @ r) = (x, r)"
    using assms by (intro digits_of_append) (auto simp: count_ok_def)
  with Some show ?thesis by (simp add: count_of_def count_text_def)
qed

lemma not_digit [simp]: "\<not> is_digit (CHR '' '')" "\<not> is_digit (CHR '','')"
  by (simp_all add: is_digit_def)

lemma hunk_match_at_text:
  assumes "number a" "count_ok b" "number c" "count_ok d"
  shows "hunk_match_at (hunk_header_text a b c d @ post) =
           Some (a, (case b of None \<Rightarrow> [] | Some x \<Rightarrow> x), c, (case d of None \<Rightarrow> [] | Some x \<Rightarrow> x))"
proof -
  have d4: "count_of (count_text d @ '' @@'' @ post) = (case d of None \<Rightarrow> [] | Some x \<Rightarrow> x, '' @@'' @ post)"
    using assms(4) by (intro count_of_text) auto
  have d3: "digits_of (c @ count_text d @ '' @@'' @ post) = (c, count_text d @ '' @@'' @ post)"
    using assms(3) by (intro digits_of_append) (auto simp: number_def count_text_def split: option.splits)
  have d2: "count_of (count_text b @ '' +'' @ c @ count_text d @ '' @@'' @ post)
              = (case b of None \<Rightarrow> [] | Some x \<Rightarrow> x, '' +'' @ c @ count_text d @ '' @@'' @ post)"
    using assms(2) by (intro count_of_text) auto
  have d1: "digits_of (a @ count_text b @ '' +'' @ c @ count_text d @ '' @@'' @ post)
              = (a, count_text b @ '' +'' @ c @ count_text d @ '' @@'' @ post)"
    using assms(1) by (intro digits_of_append) (auto simp: number_def count_text_def split: option.splits)
  show ?thesis
    using assms(1,3) d1 d2 d3 d4
    by (simp add: hunk_match_at_def hunk_header_text_def number_def)
qed

lemma hunk_search_here: "hunk_match_at s = Some g \<Longrightarrow> hunk_search s = Some g"
  by (cases s) auto

lemma hunk_search_append: "hunk_search s \<noteq> None \<Longrightarrow> hunk_search (pre @ s) \<noteq> None"
  by (induction pre) (auto split: option.splits)

lemma hunk_search_suffix:
  "hunk_search line = Some g \<Longrightarrow> \<exists>pre s. line = pre @ s \<and> hunk_match_at s = Some g"
proof (induction line)
  case Nil
  then show ?case by simp
next
  case (Cons c cs)
  show ?case
  proof (cases "hunk_match_at (c # cs)")
    case None
    with Cons.prems have "hunk_search cs = Some g" by simp
    then obtain pre s where "cs = pre @ s" "hunk_match_at s = Some g"
      using Cons.IH by blast
    then have "c # cs = (c # pre) @ s" by simp
    with \<open>hunk_match_at s = Some g\<close> show ?thesis by blast
  next
    case (Some h)
    with Cons.prems have "h = g" by simp
    with Some have "c # cs = [] @ (c # cs) \<and> hunk_match_at (c # cs) = Some g" by simp
    then show ?thesis by blast
  qed
qed

lemma digits_of_split: "digits_of s = (g, r) \<Longrightarrow> s = g @ r \<and> list_all is_digit g"
  by (auto simp: digits_of_def list_all_iff dest: set_takeWhileD)

lemma count_of_split:
  "count_of s = (g, r) \<Longrightarrow> \<exists>b. s = count_text b @ r \<and> count_ok b \<and> g = (case b of None \<Rightarrow> [] | Some x \<Rightarrow> x)"
proof (cases "\<exists>t. s = CHR '','' # t")
  case True
  assume c: "count_of s = (g, r)"
  from True obtain t where t: "s = CHR '','' # t" by blast
  with c have "digits_of t = (g, r)" by (simp add: count_of_def)
  then have "t = g @ r" "list_all is_digit g" by (auto dest: digits_of_split)
  with t have "s = count_text (Some g) @ r \<and> count_ok (Some g)"
    by (simp add: count_text_def count_ok_def)
  then show ?thesis by (intro exI[of _ "Some g"]) simp
next
  case False
  assume c: "count_of s = (g, r)"
  with False have "g = [] \<and> r = s"
    by (cases s) (auto simp: count_of_def split: if_splits)
  then show ?thesis
    by (intro exI[of _ None]) (simp add: count_text_def count_ok_def)
qed

lemma hunk_match_at_shape:
  assumes "hunk_match_at s = Some (g1, g2, g3, g4)"
  shows "\<exists>b d post. s = hunk_header_text g1 b g3 d @ post \<and> number g1 \<and> count_ok b \<and>
           number g3 \<and> count_ok d \<and>
           g2 = (case b of None \<Rightarrow> [] | Some x \<Rightarrow> x) \<and> g4 = (case d of None \<Rightarrow> [] | Some x \<Rightarrow> x)"
proof -
  from assms have p1: "prefix ''@@ -'' s"
    by (auto simp: hunk_match_at_def split: if_splits)
  then obtain r where r: "s = ''@@ -'' @ r" by (auto simp: prefix_def)
  obtain r1 where e1: "digits_of r = (g1, r1)" and n1: "g1 \<noteq> []"
    using assms r by (auto simp: hunk_match_at_def split: if_splits prod.splits)
  obtain r2 where e2: "count_of r1 = (g2, r2)" and p2: "prefix '' +'' r2"
    using assms r e1 by (auto simp: hunk_match_at_def split: if_splits prod.splits)
  then obtain r' where r': "r2 = '' +'' @ r'" by (auto simp: prefix_def)
  obtain r3 where e3: "digits_of r' = (g3, r3)" and n3: "g3 \<noteq> []"
    using assms r e1 e2 r' by (auto simp: hunk_match_at_def split: if_splits prod.splits)
  obtain r4 where e4: "count_of r3 = (g4, r4)" and p4: "prefix '' @@'' r4"
    using assms r e1 e2 r' e3 by (auto simp: hunk_match_at_def split: if_splits prod.splits)
  then obtain post where post: "r4 = '' @@'' @ post" by (auto simp: prefix_def)
  from e1 have s1: "r = g1 @ r1" "list_all is_digit g1" by (auto dest: digits_of_split)
  from e3 have s3: "r' = g3 @ r3" "list_all is_digit g3" by (auto dest: digits_of_split)
  from e2 obtain b where b: "r1 = count_text b @ r2" "count_ok b"
      "g2 = (case b of None \<Rightarrow> [] | Some x \<Rightarrow> x)"
    by (auto dest: count_of_split)
  from e4 obtain d where d: "r3 = count_text d @ r4" "count_ok d"
      "g4 = (case d of None \<Rightarrow> [] | Some x \<Rightarrow> x)"
    by (auto dest: count_of_split)
  have "s = hunk_header_text g1 b g3 d @ post"
    using r s1(1) b(1) r' s3(1) d(1) post by (simp add: hunk_header_text_def)
  with n1 n3 s1(2) s3(2) b d show ?thesis
    unfolding number_def by blast
qed

lemma info_of_groups_text:
  "info_of_groups (a, (case b of None \<Rightarrow> [] | Some x \<Rightarrow> x), c, (case d of None \<Rightarrow> [] | Some x \<Rightarrow> x))
   = \<lparr>old_start = int_of_digits a, old_count = count_value b,
      new_start = int_of_digits c, new_count = count_value d\<rparr>"
  by (simp add: info_of_groups_def count_value_def split: option.splits)

lemma header_shape_iff: "header_shape line \<longleftrightarrow> hunk_search line \<noteq> None"
proof
  assume "header_shape line"
  then obtain pre a b c d post where h: "number a" "count_ok b" "number c" "count_ok d"
      and l: "line = pre @ hunk_header_text a b c d @ post"
    unfolding header_shape_def by blast
  from h have "hunk_search (hunk_header_text a b c d @ post) \<noteq> None"
    by (simp add: hunk_match_at_text hunk_search_here)
  then show "hunk_search line \<noteq> None"
    unfolding l by (rule hunk_search_append)
next
  assume "hunk_search line \<noteq> None"
  then obtain g1 g2 g3 g4 where "hunk_search line = Some (g1, g2, g3, g4)"
    by (cases "hunk_search line") auto
  then obtain pre s where l: "line = pre @ s" and m: "hunk_match_at s = Some (g1, g2, g3, g4)"
    by (auto dest: hunk_search_suffix)
  from hunk_match_at_shape[OF m] l show "header_shape line"
    unfolding header_shape_def by blast
qed

lemma long_number: "number (replicate 4301 (CHR ''1''))"
  by (simp add: number_def list_all_iff is_digit_def)

lemma long_header_match:
  "hunk_search (''@@ -'' @ replicate 4301 (CHR ''1'') @ '' +1 @@'') =
     Some (replicate 4301 (CHR ''1''), [], ''1'', [])"
proof -
  have "number ''1''" by (simp add: number_def is_digit_def)
  with long_number
  have "hunk_match_at (hunk_header_text (replicate 4301 (CHR ''1'')) None ''1'' None @ []) =
          Some (replicate 4301 (CHR ''1''), [], ''1'', [])"
    by (subst hunk_match_at_text) (simp_all add: count_ok_def)
  then have "hunk_match_at (''@@ -'' @ replicate 4301 (CHR ''1'') @ '' +1 @@'') =
          Some (replicate 4301 (CHR ''1''), [], ''1'', [])"
    by (simp add: hunk_header_text_def count_text_def)
  then show ?thesis by (rule hunk_search_here)
qed

lemma long_header_raises:
  "parse_hunk_header (''@@ -'' @ replicate 4301 (CHR ''1'') @ '' +1 @@'') = Inl ValueError"
  unfolding parse_hunk_header_eq long_header_match
  by (simp add: groups_short_def int_max_str_digits_def)

section \<open>Hunk headers\<close>

text \<open>
  C5 as stated fails on a header whose number is too long for \<^verbatim>\<open>int\<close>: the line
  \<^verbatim>\<open>@@ -\<close>, 4301 times the digit 1, \<^verbatim>\<open> +1 @@\<close> has the hunk-header shape, and
  \<open>parse_hunk_header\<close> raises \<^verbatim>\<open>ValueError\<close> on it instead of returning the record.
\<close>

theorem parse_hunk_header_counterexample:
  "number (replicate 4301 (CHR ''1'')) \<and> number ''1''
   \<and> hunk_header_text (replicate 4301 (CHR ''1'')) None ''1'' None =
       ''@@ -'' @ replicate 4301 (CHR ''1'') @ '' +1 @@''
   \<and> parse_hunk_header (hunk_header_text (replicate 4301 (CHR ''1'')) None ''1'' None) =
       Inl ValueError"
  using long_number long_header_raises
  by (simp add: hunk_header_text_def count_text_def number_def is_digit_def)

text \<open>
  C5, amended: a line that begins with a header of the shape \<^verbatim>\<open>@@ -a,b +c,d @@\<close> whose
  numbers have at most 4300 digits each makes \<open>parse_hunk_header\<close> return the record of
  \<open>a\<close>, \<open>b\<close>, \<open>c\<close> and \<open>d\<close>, a count that is left out being 1; with a longer number the
  call raises \<^verbatim>\<open>ValueError\<close>.  A line that has the shape anywhere returns the record of
  such a header in it, or raises on its numbers in the same way; a line without the shape
  returns the empty record (\<open>None\<close>).  In \<open>parse_diff\<close> a \<^verbatim>\<open>@@\<close> line without the shape
  adds a hunk with the empty info record to the current file, and the loop goes on with
  the next line.
\<close>

theorem parse_hunk_header_spec:
  "(number a \<and> count_ok b \<and> number c \<and> count_ok d \<longrightarrow>
      parse_hunk_header (hunk_header_text a b c d @ post) =
        (if groups_short (a, count_digits b, c, count_digits d)
         then Inr (Some \<lparr>old_start = int_of_digits a, old_count = count_value b,
                         new_start = int_of_digits c, new_count = count_value d\<rparr>)
         else Inl ValueError))
   \<and> (header_shape line \<longrightarrow>
        (\<exists>pre a' b' c' d' post'.
           number a' \<and> count_ok b' \<and> number c' \<and> count_ok d' \<and>
           line = pre @ hunk_header_text a' b' c' d' @ post' \<and>
           parse_hunk_header line =
             (if groups_short (a', count_digits b', c', count_digits d')
              then Inr (Some \<lparr>old_start = int_of_digits a', old_count = count_value b',
                              new_start = int_of_digits c', new_count = count_value d'\<rparr>)
              else Inl ValueError)))
   \<and> (\<not> header_shape line \<longrightarrow> parse_hunk_header line = Inr None)
   \<and> (\<not> header_shape line \<and> startswith line ''@@'' \<and> current_file st = Some k \<longrightarrow>
        parse_line st line =
          Inr (st\<lparr>heap := (heap st)[k := (heap st ! k)
                 \<lparr>changes := changes (heap st ! k) @ [\<lparr>ctype = ''hunk'', info = None, lines = []\<rparr>]\<rparr>]\<rparr>)
        \<and> parse_lines st (line # rest) =
          parse_lines (st\<lparr>heap := (heap st)[k := (heap st ! k)
                 \<lparr>changes := changes (heap st ! k) @ [\<lparr>ctype = ''hunk'', info = None, lines = []\<rparr>]\<rparr>]\<rparr>) rest)"
proof (intro conjI impI)
  assume "number a \<and> count_ok b \<and> number c \<and> count_ok d"
  then have "hunk_search (hunk_header_text a b c d @ post) =
               Some (a, count_digits b, c, count_digits d)"
    by (simp add: hunk_match_at_text hunk_search_here count_digits_def)
  then show "parse_hunk_header (hunk_header_text a b c d @ post) =
        (if groups_short (a, count_digits b, c, count_digits d)
         then Inr (Some \<lparr>old_start = int_of_digits a, old_count = count_value b,
                         new_start = int_of_digits c, new_count = count_value d\<rparr>)
         else Inl ValueError)"
    using info_of_groups_text [of a b c d]
    by (simp add: parse_hunk_header_eq count_digits_def)
next
  assume "header_shape line"
  then have "hunk_search line \<noteq> None"
    by (simp add: header_shape_iff)
  then obtain g1 g2 g3 g4 where g: "hunk_search line = Some (g1, g2, g3, g4)"
    by (metis not_Some_eq prod_cases4)
  then obtain pre s where l: "line = pre @ s" and m: "hunk_match_at s = Some (g1, g2, g3, g4)"
    by (auto dest: hunk_search_suffix)
  from hunk_match_at_shape[OF m] obtain b d post where
    s: "s = hunk_header_text g1 b g3 d @ post" and ok: "number g1" "count_ok b" "number g3" "count_ok d"
    and gs: "g2 = count_digits b" "g4 = count_digits d"
    unfolding count_digits_def by blast
  have "parse_hunk_header line =
          (if groups_short (g1, count_digits b, g3, count_digits d)
           then Inr (Some \<lparr>old_start = int_of_digits g1, old_count = count_value b,
                           new_start = int_of_digits g3, new_count = count_value d\<rparr>)
           else Inl ValueError)"
    using g gs info_of_groups_text [of g1 b g3 d]
    by (simp add: parse_hunk_header_eq count_digits_def)
  with l s ok show "\<exists>pre a' b' c' d' post'.
           number a' \<and> count_ok b' \<and> number c' \<and> count_ok d' \<and>
           line = pre @ hunk_header_text a' b' c' d' @ post' \<and>
           parse_hunk_header line =
             (if groups_short (a', count_digits b', c', count_digits d')
              then Inr (Some \<lparr>old_start = int_of_digits a', old_count = count_value b',
                              new_start = int_of_digits c', new_count = count_value d'\<rparr>)
              else Inl ValueError)"
    by blast
next
  assume "\<not> header_shape line"
  then have "hunk_search line = None"
    using header_shape_iff by blast
  then show "parse_hunk_header line = Inr None"
    by (simp add: parse_hunk_header_eq)
next
  assume a: "\<not> header_shape line \<and> startswith line ''@@'' \<and> current_file st = Some k"
  then have "hunk_search line = None"
    using header_shape_iff by blast
  then have n: "parse_hunk_header line = Inr None"
    by (simp add: parse_hunk_header_eq)
  have "\<not> startswith line ''diff --git''" "\<not> startswith line ''+++''" "\<not> startswith line ''---''"
    using a by (cases line; auto simp: startswith_def)+
  with a n show p: "parse_line st line =
          Inr (st\<lparr>heap := (heap st)[k := (heap st ! k)
                 \<lparr>changes := changes (heap st ! k) @ [\<lparr>ctype = ''hunk'', info = None, lines = []\<rparr>]\<rparr>]\<rparr>)"
    by (simp add: parse_line_def add_hunk_def)
  then show "parse_lines st (line # rest) =
          parse_lines (st\<lparr>heap := (heap st)[k := (heap st ! k)
                 \<lparr>changes := changes (heap st ! k) @ [\<lparr>ctype = ''hunk'', info = None, lines = []\<rparr>]\<rparr>]\<rparr>) rest"
    by simp
qed

theorem parse_hunk_header_witness:
  "number ''1'' \<and> count_ok (Some ''2'') \<and> number ''30'' \<and> count_ok None
   \<and> groups_short (''1'', count_digits (Some ''2''), ''30'', count_digits None)
   \<and> parse_hunk_header ''@@ -1,2 +30 @@ def f():'' =
        Inr (Some \<lparr>old_start = 1, old_count = 2, new_start = 30, new_count = 1\<rparr>)
   \<and> \<not> header_shape ''@@ garbage''
   \<and> startswith ''@@ garbage'' ''@@''
   \<and> parse_hunk_header ''@@ garbage'' = Inr None
   \<and> parse_line \<lparr>heap = [new_file ''x'' ''x''], files = [], current_file = Some 0\<rparr> ''@@ garbage'' =
        Inr \<lparr>heap = [\<lparr>old_path = ''x'', new_path = ''x'',
                       changes = [\<lparr>ctype = ''hunk'', info = None, lines = []\<rparr>],
                       additions = 0, deletions = 0\<rparr>],
             files = [], current_file = Some 0\<rparr>"
proof -
  have h: "number ''1'' \<and> count_ok (Some ''2'') \<and> number ''30'' \<and> count_ok None"
    by (simp add: number_def count_ok_def is_digit_def)
  have k: "groups_short (''1'', count_digits (Some ''2''), ''30'', count_digits None)"
    by (simp add: groups_short_def count_digits_def int_max_str_digits_def)
  have g: "\<not> header_shape ''@@ garbage''"
    by (simp add: header_shape_iff hunk_match_at_def)
  have s: "startswith ''@@ garbage'' ''@@''"
    by (simp add: startswith_def)
  have v: "int_of_digits ''1'' = 1" "count_value (Some ''2'') = 2" "int_of_digits ''30'' = 30"
      "count_value None = 1"
    by (simp_all add: int_of_digits_def count_value_def digit_val_def)
  show ?thesis
    using h k g s v
      parse_hunk_header_spec [of "''1''" "Some ''2''" "''30''" None "'' def f():''" "''@@ garbage''"
        "\<lparr>heap = [new_file ''x'' ''x''], files = [], current_file = Some 0\<rparr>" 0 "[]"]
    by (simp add: hunk_header_text_def count_text_def new_file_def)
qed

section \<open>When the parser raises\<close>

lemma long_header_facts:
  "parse_hunk_header long_header = Inl ValueError"
  "\<not> short_header long_header"
  "startswith long_header ''@@''"
  "\<not> startswith long_header ''diff --git''"
  "\<not> startswith long_header ''+++''"
  "\<not> startswith long_header ''---''"
  "nl \<notin> set long_header"
proof -
  show "parse_hunk_header long_header = Inl ValueError"
    unfolding long_header_def by (rule long_header_raises)
  show "\<not> short_header long_header"
    unfolding long_header_def short_header_def long_header_match
    by (simp add: groups_short_def int_max_str_digits_def)
qed (simp_all add: long_header_def startswith_def nl_def)

lemma code_line_total: "changes f \<noteq> [] \<Longrightarrow> \<exists>f'. code_line line f = Inr f'"
  by (cases "changes f") (auto simp: code_line_def append_line_def)

lemma parse_line_error:
  assumes "parse_line st line = Inl e"
  shows "e = ValueError \<and> \<not> short_header line"
proof -
  have c: "code_line line (heap st ! a) \<noteq> Inl e'" if "changes (heap st ! a) \<noteq> []" for a e'
    using code_line_total [OF that, of line] by auto
  from assms obtain a where "parse_hunk_header line = Inl e"
    by (auto simp: parse_line_def Let_def c split: if_splits option.splits sum.splits)
  then show ?thesis by (rule parse_hunk_header_error)
qed

lemma parse_line_total: "short_header line \<Longrightarrow> \<exists>st'. parse_line st line = Inr st'"
  using parse_line_error [of st line] by (cases "parse_line st line") auto

lemma parse_lines_error:
  "parse_lines st ls = Inl e \<Longrightarrow> e = ValueError \<and> \<not> list_all short_header ls"
proof (induction ls arbitrary: st)
  case Nil
  then show ?case by simp
next
  case (Cons l ls)
  then show ?case
    by (cases "parse_line st l") (auto dest: parse_line_error)
qed

lemma parse_lines_total: "list_all short_header ls \<Longrightarrow> \<exists>st'. parse_lines st ls = Inr st'"
  using parse_lines_error [of st ls] by (cases "parse_lines st ls") auto

lemma parse_diff_Nil: "parse_diff [] = Inr []"
  by (simp add: parse_diff_def init_state_def parse_line_def startswith_def finish_def)

lemma parse_diff_Inr:
  "list_all short_header (str_split nl diff_content) \<Longrightarrow> \<exists>fs. parse_diff diff_content = Inr fs"
  using parse_lines_total [of "str_split nl diff_content" init_state]
  by (auto simp: parse_diff_def)

lemma parse_diff_Inl:
  "parse_diff diff_content = Inl e \<Longrightarrow>
     e = ValueError \<and> \<not> list_all short_header (str_split nl diff_content)"
  by (auto simp: parse_diff_def split: sum.splits dest: parse_lines_error)

lemma first_marker:
  "parse_line init_state ''diff --git a/x b/x'' =
     Inr \<lparr>heap = [new_file ''x'' ''x''], files = [], current_file = Some 0\<rparr>"
  by code_simp

lemma parse_diff_long_header:
  "parse_diff (join [nl] [''diff --git a/x b/x'', long_header]) = Inl ValueError"
proof -
  have "str_split nl (''diff --git a/x b/x'' @ nl # long_header) =
          [''diff --git a/x b/x'', long_header]"
    by (subst str_split_append) (simp_all add: nl_def str_split_none long_header_facts [unfolded nl_def])
  moreover have "parse_line \<lparr>heap = [new_file ''x'' ''x''], files = [], current_file = Some 0\<rparr>
                   long_header = Inl ValueError"
    by (simp add: parse_line_def long_header_facts)
  ultimately show ?thesis
    by (simp add: parse_diff_def first_marker)
qed

text \<open>
  C3 as stated fails: \<open>parse_diff\<close> is not total.  On a file marker followed by a hunk
  header whose first number has 4301 digits, \<^verbatim>\<open>int\<close> raises \<^verbatim>\<open>ValueError\<close> and nothing
  catches it.
\<close>

theorem parse_diff_counterexample:
  "parse_diff (join [nl]
     [''diff --git a/x b/x'', ''@@ -'' @ replicate 4301 (CHR ''1'') @ '' +1 @@'']) = Inl ValueError"
  using parse_diff_long_header unfolding long_header_def .

text \<open>
  C3, amended: \<open>parse_diff\<close> ends on every input string.  It returns a list of file
  changes, possibly empty, whenever no line of the input holds a hunk header with a
  number of more than 4300 digits; the only exception it ever raises is the
  \<^verbatim>\<open>ValueError\<close> of \<^verbatim>\<open>int\<close> on such a number (the \<^verbatim>\<open>IndexError\<close> branch of the model is
  never taken); on the empty string it returns the empty list.
\<close>

theorem parse_diff_returns:
  "(list_all short_header (str_split nl diff_content) \<longrightarrow>
      (\<exists>fs. parse_diff diff_content = Inr fs))
   \<and> (parse_diff diff_content = Inl e \<longrightarrow>
        e = ValueError \<and> \<not> list_all short_header (str_split nl diff_content))
   \<and> parse_diff [] = Inr []"
  using parse_diff_Inr parse_diff_Inl parse_diff_Nil by blast

theorem parse_diff_returns_witness:
  "list_all short_header (str_split nl (join [nl] [''diff --git a/x b/x'', ''@@ -12,0 +7 @@'', ''+a'']))
   \<and> parse_diff (join [nl] [''diff --git a/x b/x'', ''@@ -12,0 +7 @@'', ''+a'']) =
       Inr [\<lparr>old_path = ''x'', new_path = ''x'',
             changes = [\<lparr>ctype = ''hunk'',
                         info = Some \<lparr>old_start = 12, old_count = 0, new_start = 7, new_count = 1\<rparr>,
                         lines = [\<lparr>ltype = Addition, content = ''a''\<rparr>]\<rparr>],
             additions = 1, deletions = 0\<rparr>]
   \<and> parse_diff [] = Inr []"
proof -
  have h: "list_all short_header
             (str_split nl (join [nl] [''diff --git a/x b/x'', ''@@ -12,0 +7 @@'', ''+a'']))"
    by code_simp
  have v: "parse_diff (join [nl] [''diff --git a/x b/x'', ''@@ -12,0 +7 @@'', ''+a'']) =
       Inr [\<lparr>old_path = ''x'', new_path = ''x'',
             changes = [\<lparr>ctype = ''hunk'',
                         info = Some \<lparr>old_start = 12, old_count = 0, new_start = 7, new_count = 1\<rparr>,
                         lines = [\<lparr>ltype = Addition, content = ''a''\<rparr>]\<rparr>],
             additions = 1, deletions = 0\<rparr>]"
    by code_simp
  from parse_diff_returns [of "join [nl] [''diff --git a/x b/x'', ''@@ -12,0 +7 @@'', ''+a'']"] h v
  show ?thesis by simp
qed

section \<open>The concrete scenario\<close>

text \<open>
  C2: on the diff made of the eight lines below, \<open>parse_diff\<close> returns exactly one file
  change with both paths \<open>x.py\<close>, holding exactly one hunk whose info is
  \<open>old_start = 1, old_count = 2, new_start = 1, new_count = 3\<close> and whose lines are, in
  order, context \<open>context\<close>, deletion \<open>old line\<close>, addition \<open>new line\<close>, addition
  \<open>added line\<close>, with \<open>additions = 2\<close> and \<open>deletions = 1\<close>.  The result is the same
  when the text ends with a newline.
\<close>

theorem parse_diff_example:
  "parse_diff (join [nl]
     [''diff --git a/x.py b/x.py'',
      ''--- a/x.py'',
      ''+++ b/x.py'',
      ''@@ -1,2 +1,3 @@'',
      '' context'',
      ''-old line'',
      ''+new line'',
      ''+added line'']) =
   Inr [\<lparr>old_path = ''x.py'', new_path = ''x.py'',
         changes =
           [\<lparr>ctype = ''hunk'',
              info = Some \<lparr>old_start = 1, old_count = 2, new_start = 1, new_count = 3\<rparr>,
              lines = [\<lparr>ltype = Context, content = ''context''\<rparr>,
                       \<lparr>ltype = Deletion, content = ''old line''\<rparr>,
                       \<lparr>ltype = Addition, content = ''new line''\<rparr>,
                       \<lparr>ltype = Addition, content = ''added line''\<rparr>]\<rparr>],
         additions = 2, deletions = 1\<rparr>]
   \<and> parse_diff (join [nl]
     [''diff --git a/x.py b/x.py'',
      ''--- a/x.py'',
      ''+++ b/x.py'',
      ''@@ -1,2 +1,3 @@'',
      '' context'',
      ''-old line'',
      ''+new line'',
      ''+added line'',
      []]) =
   Inr [\<lparr>old_path = ''x.py'', new_path = ''x.py'',
         changes =
           [\<lparr>ctype = ''hunk'',
              info = Some \<lparr>old_start = 1, old_count = 2, new_start = 1, new_count = 3\<rparr>,
              lines = [\<lparr>ltype = Context, content = ''context''\<rparr>,
                       \<lparr>ltype = Deletion, content = ''old line''\<rparr>,
                       \<lparr>ltype = Addition, content = ''new line''\<rparr>,
                       \<lparr>ltype = Addition, content = ''added line''\<rparr>]\<rparr>],
         additions = 2, deletions = 1\<rparr>]"
  by code_simp

section \<open>\<^verbatim>\<open>filter_significant_changes\<close>\<close>

text \<open>
  C7: for every list of files and every threshold, \<open>filter_significant_changes\<close> returns
  exactly the files with \<open>additions + deletions \<ge> min_changes\<close>, as a subsequence in the
  original order; the threshold is 5 when it is left out; a file whose two counters sum
  to exactly the threshold is kept, and one whose counters sum to the threshold minus
  one is dropped.
\<close>

theorem filter_significant_changes_spec:
  "filter_significant_changes fs m = filter (\<lambda>f. m \<le> additions f + deletions f) fs
   \<and> subseq (filter_significant_changes fs m) fs
   \<and> (f \<in> set (filter_significant_changes fs m)
        \<longleftrightarrow> f \<in> set fs \<and> m \<le> additions f + deletions f)
   \<and> filter_significant_changes_default fs = filter_significant_changes fs 5
   \<and> filter_significant_changes
         [\<lparr>old_path = p, new_path = q, changes = cs, additions = a, deletions = m - a\<rparr>] m
       = [\<lparr>old_path = p, new_path = q, changes = cs, additions = a, deletions = m - a\<rparr>]
   \<and> filter_significant_changes
         [\<lparr>old_path = p, new_path = q, changes = cs, additions = a, deletions = m - 1 - a\<rparr>] m
       = []"
  by (auto simp: filter_significant_changes_def filter_significant_changes_default_def)

theorem filter_significant_changes_witness:
  "filter_significant_changes_default
     [new_file ''a'' ''a'' \<lparr>additions := 2, deletions := 3\<rparr>,
      new_file ''b'' ''b'' \<lparr>additions := 2, deletions := 2\<rparr>,
      new_file ''c'' ''c'' \<lparr>additions := 7, deletions := 0\<rparr>]
   = [new_file ''a'' ''a'' \<lparr>additions := 2, deletions := 3\<rparr>,
      new_file ''c'' ''c'' \<lparr>additions := 7, deletions := 0\<rparr>]"
  using filter_significant_changes_spec
    [of "[new_file ''a'' ''a'' \<lparr>additions := 2, deletions := 3\<rparr>,
      new_file ''b'' ''b'' \<lparr>additions := 2, deletions := 2\<rparr>,
      new_file ''c'' ''c'' \<lparr>additions := 7, deletions := 0\<rparr>]" 5]
  by (simp add: new_file_def)

section \<open>Lines that are no code lines\<close>

lemma parse_lines_append:
  "parse_lines st (xs @ ys) =
     (case parse_lines st xs of Inl e \<Rightarrow> Inl e | Inr st' \<Rightarrow> parse_lines st' ys)"
  by (induction xs arbitrary: st) (auto split: sum.splits)

lemma add_hunk_fields [simp]:
  "additions (add_hunk hi f) = additions f"
  "deletions (add_hunk hi f) = deletions f"
  "old_path (add_hunk hi f) = old_path f"
  "new_path (add_hunk hi f) = new_path f"
  "changes (add_hunk hi f) = changes f @ [\<lparr>ctype = ''hunk'', info = hi, lines = []\<rparr>]"
  by (simp_all add: add_hunk_def)

lemma other_line_unmarked:
  assumes "\<not> startswith line ''+''" "\<not> startswith line ''-''" "\<not> startswith line '' ''"
    and "\<not> startswith line ''diff --git''" "\<not> startswith line ''@@''"
  shows "parse_line st line = Inr st"
proof -
  have "code_line line f = Inr f" for f
    using assms by (simp add: code_line_def)
  moreover have "\<not> startswith line ''+++''" "\<not> startswith line ''---''"
    using assms(1,2) by (auto dest: startswith_first)
  ultimately show ?thesis
    using assms by (cases st) (auto simp: parse_line_def split: option.splits)
qed

text \<open>
  C10: a line whose first character is none of \<open>+\<close>, \<open>-\<close> and the blank (the empty line
  included) is never stored as a code line.  In every state of the loop, so in
  particular inside a hunk: whenever the iteration on such a line returns, it has left
  the addition and deletion counters of every file unchanged and every hunk that exists,
  the current one among them, with the lines it had; it returns unless the line is a
  \<^verbatim>\<open>@@\<close> line (on which \<^verbatim>\<open>int\<close> may raise, and then nothing is stored either); and
  unless the line is a \<^verbatim>\<open>diff --git\<close> or \<^verbatim>\<open>@@\<close> marker, the iteration changes nothing
  at all: parsing goes on as if the line were not there.
\<close>

theorem other_line_discarded:
  assumes "\<not> startswith line ''+''" "\<not> startswith line ''-''" "\<not> startswith line '' ''"
  shows "(\<forall>st'. parse_line st line = Inr st' \<longrightarrow>
           (\<forall>b < length (heap st).
              additions (heap st' ! b) = additions (heap st ! b) \<and>
              deletions (heap st' ! b) = deletions (heap st ! b) \<and>
              take (length (changes (heap st ! b))) (changes (heap st' ! b)) = changes (heap st ! b)))
         \<and> (\<not> startswith line ''@@'' \<longrightarrow> (\<exists>st'. parse_line st line = Inr st'))
         \<and> (\<not> startswith line ''diff --git'' \<and> \<not> startswith line ''@@'' \<longrightarrow>
              parse_line st line = Inr st \<and> parse_lines st (line # rest) = parse_lines st rest)"
proof -
  have plus: "\<not> startswith line ''+++''" "\<not> startswith line ''---''"
    using assms(1,2) by (auto dest: startswith_first)
  consider (marker) "startswith line ''diff --git''"
    | (hunk) "\<not> startswith line ''diff --git''" "startswith line ''@@''"
    | (other) "\<not> startswith line ''diff --git''" "\<not> startswith line ''@@''"
    by blast
  then show ?thesis
  proof cases
    case marker
    then have "\<not> startswith line ''@@''"
      by (cases line) (auto simp: startswith_def)
    with marker show ?thesis
      by (auto simp: parse_line_def Let_def nth_append split: option.splits)
  next
    case hunk
    then show ?thesis
      using plus
      by (auto simp: parse_line_def nth_update_if split: option.splits sum.splits)
  next
    case other
    then have "parse_line st line = Inr st"
      using assms by (intro other_line_unmarked)
    with other show ?thesis by simp
  qed
qed

theorem other_line_discarded_witness:
  "\<not> startswith [] ''+'' \<and> \<not> startswith [] ''-'' \<and> \<not> startswith [] '' '' \<and>
   parse_line
     \<lparr>heap = [\<lparr>old_path = ''x'', new_path = ''x'',
               changes = [\<lparr>ctype = ''hunk'', info = None,
                           lines = [\<lparr>ltype = Addition, content = ''a''\<rparr>]\<rparr>],
               additions = 1, deletions = 0\<rparr>],
      files = [], current_file = Some 0\<rparr> [] =
   Inr \<lparr>heap = [\<lparr>old_path = ''x'', new_path = ''x'',
               changes = [\<lparr>ctype = ''hunk'', info = None,
                           lines = [\<lparr>ltype = Addition, content = ''a''\<rparr>]\<rparr>],
               additions = 1, deletions = 0\<rparr>],
      files = [], current_file = Some 0\<rparr>"
  using other_line_discarded [of "[]"
     "\<lparr>heap = [\<lparr>old_path = ''x'', new_path = ''x'',
               changes = [\<lparr>ctype = ''hunk'', info = None,
                           lines = [\<lparr>ltype = Addition, content = ''a''\<rparr>]\<rparr>],
               additions = 1, deletions = 0\<rparr>],
      files = [], current_file = Some 0\<rparr>" "[]"]
  by (auto simp: startswith_def)

section \<open>\<^verbatim>\<open>extract_context_lines\<close>\<close>

lemma context_step_fold:
  "fold (context_step cl ls) ps acc =
     acc @ concat (map (\<lambda>p. if changed (snd p) then window cl ls (fst p) else []) ps)"
  by (induction ps arbitrary: acc)
     (auto simp: context_step_def window_def changed_def Let_def split: prod.splits)

lemma concat_map_if:
  "concat (map (\<lambda>x. if P x then w x else []) xs) = concat (map w (filter P xs))"
  by (induction xs) auto

lemma enumerate_nth_map:
  "map (\<lambda>p. if changed (snd p) then window cl ls (fst p) else []) (enumerate 0 ls) =
   map (\<lambda>i. if changed (ls ! i) then window cl ls i else []) [0..<length ls]"
  by (rule nth_equalityI) (auto simp: nth_enumerate_eq)

lemma relevant_of_eq:
  "relevant_of cl ls = concat (map (window cl ls) (filter (\<lambda>i. changed (ls ! i)) [0..<length ls]))"
  by (simp add: relevant_of_def context_step_fold enumerate_nth_map concat_map_if)

lemma hunk_step_fold:
  "fold (hunk_step cl) cs acc =
     acc @ map (\<lambda>c. \<lparr>hunk_info = info c, relevant_lines = relevant_of cl (lines c)\<rparr>)
             (filter (\<lambda>c. ctype c = ''hunk'' \<and> relevant_of cl (lines c) \<noteq> []) cs)"
  by (induction cs arbitrary: acc) (auto simp: hunk_step_def Let_def)

lemma file_context_eq:
  "file_context cl f =
     map (\<lambda>c. \<lparr>hunk_info = info c, relevant_lines = relevant_of cl (lines c)\<rparr>)
       (filter (\<lambda>c. ctype c = ''hunk'' \<and> relevant_of cl (lines c) \<noteq> []) (changes f))"
  by (simp add: file_context_def hunk_step_fold)

lemma fold_upd_map_of:
  "fold (\<lambda>x m. m(k x \<mapsto> v x)) xs m0 = m0 ++ map_of (rev (map (\<lambda>x. (k x, v x)) xs))"
  by (induction xs arbitrary: m0) (auto simp: map_add_upd_left fun_eq_iff map_add_def split: option.splits)

lemma extract_context_lines_map_of:
  "extract_context_lines fs cl = map_of (rev (map (\<lambda>f. (file_path f, file_context cl f)) fs))"
  by (simp add: extract_context_lines_def fold_upd_map_of)

lemma take_drop_nth: "e \<le> length xs \<Longrightarrow> take (e - s) (drop s xs) = map ((!) xs) [s..<e]"
  by (rule nth_equalityI) auto

lemma window_nonneg:
  assumes "0 \<le> cl" "i < length ls"
  shows "window cl ls i =
           map ((!) ls) [nat (max 0 (int i - cl))..<nat (min (int (length ls)) (int i + cl + 1))]"
proof -
  have "slice_bound (length ls) (max 0 (int i - cl)) = nat (max 0 (int i - cl))"
    using assms by (auto simp: slice_bound_def)
  moreover have "slice_bound (length ls) (min (int (length ls)) (int i + cl + 1))
                   = nat (min (int (length ls)) (int i + cl + 1))"
    using assms by (auto simp: slice_bound_def)
  moreover have "nat (min (int (length ls)) (int i + cl + 1)) \<le> length ls"
    by auto
  ultimately show ?thesis
    by (simp add: window_def py_slice_def take_drop_nth)
qed

lemma relevant_of_spec:
  assumes "0 \<le> cl"
  shows "relevant_of cl ls = spec_relevant_of cl ls"
proof -
  have "map (window cl ls) (filter (\<lambda>i. changed (ls ! i)) [0..<length ls]) =
        map (spec_window cl ls) (filter (\<lambda>i. changed (ls ! i)) [0..<length ls])"
    using assms by (intro map_cong refl) (auto simp: window_nonneg spec_window_def)
  then show ?thesis
    unfolding relevant_of_eq spec_relevant_of_def by (rule arg_cong)
qed

text \<open>
  C8 as stated fails for a negative \<open>context_lines\<close>.  With \<open>context_lines = -2\<close> and an
  addition at index 0 of five lines the bounds are 2 and -1; the lines from index 2 up
  to, not including, index -1 are none, but the code takes \<^verbatim>\<open>lines[2:-1]\<close>, where Python
  counts the -1 from the end: two lines, and the hunk is in the output.
\<close>

theorem extract_context_lines_counterexample:
  "relevant_of (- 2)
     [\<lparr>ltype = Addition, content = ''a0''\<rparr>, \<lparr>ltype = Context, content = ''k1''\<rparr>,
      \<lparr>ltype = Context, content = ''k2''\<rparr>, \<lparr>ltype = Context, content = ''k3''\<rparr>,
      \<lparr>ltype = Context, content = ''k4''\<rparr>] =
     [\<lparr>ltype = Context, content = ''k2''\<rparr>, \<lparr>ltype = Context, content = ''k3''\<rparr>]
   \<and> spec_relevant_of (- 2)
     [\<lparr>ltype = Addition, content = ''a0''\<rparr>, \<lparr>ltype = Context, content = ''k1''\<rparr>,
      \<lparr>ltype = Context, content = ''k2''\<rparr>, \<lparr>ltype = Context, content = ''k3''\<rparr>,
      \<lparr>ltype = Context, content = ''k4''\<rparr>] = []
   \<and> file_context (- 2)
     \<lparr>old_path = ''x'', new_path = ''x'',
      changes = [\<lparr>ctype = ''hunk'', info = None,
                  lines = [\<lparr>ltype = Addition, content = ''a0''\<rparr>, \<lparr>ltype = Context, content = ''k1''\<rparr>,
                           \<lparr>ltype = Context, content = ''k2''\<rparr>, \<lparr>ltype = Context, content = ''k3''\<rparr>,
                           \<lparr>ltype = Context, content = ''k4''\<rparr>]\<rparr>],
      additions = 1, deletions = 0\<rparr> =
     [\<lparr>hunk_info = None,
       relevant_lines = [\<lparr>ltype = Context, content = ''k2''\<rparr>, \<lparr>ltype = Context, content = ''k3''\<rparr>]\<rparr>]"
  by code_simp

text \<open>
  C8, amended: for every list of files and every \<open>context_lines \<ge> 0\<close> (default 3), the
  relevant lines of a hunk are the concatenation, over the indices \<open>i\<close> of its addition
  and deletion lines in order, of the lines at the indices from
  \<open>max(0, i - context_lines)\<close> up to, not including, \<open>min(len, i + context_lines + 1)\<close>;
  nothing is removed, so overlapping windows repeat lines.  For a negative
  \<open>context_lines\<close> what is appended is the Python slice
  \<^verbatim>\<open>lines[max(0, i - context_lines):min(len, i + context_lines + 1)]\<close>, whose negative upper
  bound counts from the end of the list.  For every value, the list stored for a file
  holds one record for each hunk whose relevant lines are not empty, and for no other;
  the mapping takes each path to the list of the last file with that path.
\<close>

theorem extract_context_lines_spec:
  "relevant_of cl ls =
     concat (map (\<lambda>i. py_slice ls (max 0 (int i - cl)) (min (int (length ls)) (int i + cl + 1)))
               (filter (\<lambda>i. ltype (ls ! i) \<in> {Addition, Deletion}) [0..<length ls]))
   \<and> (0 \<le> cl \<and> i < length ls \<longrightarrow>
        py_slice ls (max 0 (int i - cl)) (min (int (length ls)) (int i + cl + 1)) =
          map ((!) ls) [nat (max 0 (int i - cl))..<nat (min (int (length ls)) (int i + cl + 1))])
   \<and> file_context cl f =
        map (\<lambda>c. \<lparr>hunk_info = info c, relevant_lines = relevant_of cl (lines c)\<rparr>)
          (filter (\<lambda>c. ctype c = ''hunk'' \<and> relevant_of cl (lines c) \<noteq> []) (changes f))
   \<and> extract_context_lines fs cl = map_of (rev (map (\<lambda>f. (file_path f, file_context cl f)) fs))
   \<and> extract_context_lines (fs @ [f]) cl (file_path f) = Some (file_context cl f)
   \<and> extract_context_lines_default fs = extract_context_lines fs 3
   \<and> (0 \<le> cl \<longrightarrow> relevant_of cl ls = spec_relevant_of cl ls)"
proof (intro conjI impI)
  show "relevant_of cl ls =
     concat (map (\<lambda>i. py_slice ls (max 0 (int i - cl)) (min (int (length ls)) (int i + cl + 1)))
               (filter (\<lambda>i. ltype (ls ! i) \<in> {Addition, Deletion}) [0..<length ls]))"
    by (simp add: relevant_of_eq window_def [abs_def] changed_def)
  show "py_slice ls (max 0 (int i - cl)) (min (int (length ls)) (int i + cl + 1)) =
          map ((!) ls) [nat (max 0 (int i - cl))..<nat (min (int (length ls)) (int i + cl + 1))]"
    if "0 \<le> cl \<and> i < length ls"
    using that window_nonneg [of cl i ls] by (simp add: window_def)
  show "file_context cl f =
        map (\<lambda>c. \<lparr>hunk_info = info c, relevant_lines = relevant_of cl (lines c)\<rparr>)
          (filter (\<lambda>c. ctype c = ''hunk'' \<and> relevant_of cl (lines c) \<noteq> []) (changes f))"
    by (rule file_context_eq)
  show "extract_context_lines fs cl = map_of (rev (map (\<lambda>f. (file_path f, file_context cl f)) fs))"
    by (rule extract_context_lines_map_of)
  show "extract_context_lines (fs @ [f]) cl (file_path f) = Some (file_context cl f)"
    by (simp add: extract_context_lines_def)
  show "extract_context_lines_default fs = extract_context_lines fs 3"
    by (simp add: extract_context_lines_default_def)
  show "relevant_of cl ls = spec_relevant_of cl ls" if "0 \<le> cl"
    using that by (rule relevant_of_spec)
qed

theorem extract_context_lines_witness:
  "(0::int) \<le> 1 \<and> (1::nat) < length
       [\<lparr>ltype = Context, content = ''k0''\<rparr>, \<lparr>ltype = Addition, content = ''a1''\<rparr>,
        \<lparr>ltype = Deletion, content = ''d2''\<rparr>, \<lparr>ltype = Context, content = ''k3''\<rparr>,
        \<lparr>ltype = Context, content = ''k4''\<rparr>]
   \<and> py_slice
       [\<lparr>ltype = Context, content = ''k0''\<rparr>, \<lparr>ltype = Addition, content = ''a1''\<rparr>,
        \<lparr>ltype = Deletion, content = ''d2''\<rparr>, \<lparr>ltype = Context, content = ''k3''\<rparr>,
        \<lparr>ltype = Context, content = ''k4''\<rparr>] (max 0 (int 1 - 1)) (min 5 (int 1 + 1 + 1)) =
       [\<lparr>ltype = Context, content = ''k0''\<rparr>, \<lparr>ltype = Addition, content = ''a1''\<rparr>,
        \<lparr>ltype = Deletion, content = ''d2''\<rparr>]
   \<and> relevant_of 1
       [\<lparr>ltype = Context, content = ''k0''\<rparr>, \<lparr>ltype = Addition, content = ''a1''\<rparr>,
        \<lparr>ltype = Deletion, content = ''d2''\<rparr>, \<lparr>ltype = Context, content = ''k3''\<rparr>,
        \<lparr>ltype = Context, content = ''k4''\<rparr>] =
       [\<lparr>ltype = Context, content = ''k0''\<rparr>, \<lparr>ltype = Addition, content = ''a1''\<rparr>,
        \<lparr>ltype = Deletion, content = ''d2''\<rparr>,
        \<lparr>ltype = Addition, content = ''a1''\<rparr>, \<lparr>ltype = Deletion, content = ''d2''\<rparr>,
        \<lparr>ltype = Context, content = ''k3''\<rparr>]"
  using extract_context_lines_spec [of 1
       "[\<lparr>ltype = Context, content = ''k0''\<rparr>, \<lparr>ltype = Addition, content = ''a1''\<rparr>,
        \<lparr>ltype = Deletion, content = ''d2''\<rparr>, \<lparr>ltype = Context, content = ''k3''\<rparr>,
        \<lparr>ltype = Context, content = ''k4''\<rparr>]" 1 "new_file [] []" "[]"]
  by (simp add: py_slice_def slice_bound_def)

section \<open>File paths and extensions\<close>

lemma file_path_new: "file_path f = new_path f"
  by (simp add: file_path_def)

lemma fold_add_extension:
  "fold add_extension fs S =
     S \<union> (\<lambda>f. extension_of (new_path f)) ` {f \<in> set fs. CHR ''.'' \<in> set (new_path f)}"
  by (induction fs arbitrary: S)
     (auto simp: add_extension_def file_path_new extension_of_def Let_def)

lemma extension_set_eq:
  "extension_set fs =
     (\<lambda>f. extension_of (new_path f)) ` {f \<in> set fs. CHR ''.'' \<in> set (new_path f)}"
  by (simp add: extension_set_def fold_add_extension)

lemma dom_extract_context_lines: "dom (extract_context_lines fs cl) = new_path ` set fs"
proof -
  have "dom (fold (\<lambda>file m. m(file_path file \<mapsto> file_context cl file)) fs m0)
          = dom m0 \<union> new_path ` set fs" for m0
    by (induction fs arbitrary: m0) (auto simp: file_path_new)
  then show ?thesis by (simp add: extract_context_lines_def)
qed

text \<open>
  C6 as stated fails: \<^verbatim>\<open>file.get('new_path', ...)\<close> falls back to \<^verbatim>\<open>old_path\<close> only for a
  dictionary without the key \<^verbatim>\<open>new_path\<close>, not for an empty \<^verbatim>\<open>new_path\<close>.  The line
  \<^verbatim>\<open>diff --git a/a.py b/\<close> parses to a file whose \<^verbatim>\<open>new_path\<close> is empty; the rule of the
  claim selects \<open>a.py\<close> and the extension \<open>py\<close>, the code selects the empty path, finds no
  extension and keys the context mapping by the empty string.
\<close>

theorem file_path_counterexample:
  "parse_diff ''diff --git a/a.py b/'' =
     Inr [\<lparr>old_path = ''a.py'', new_path = [], changes = [], additions = 0, deletions = 0\<rparr>]
   \<and> spec_file_path \<lparr>old_path = ''a.py'', new_path = [], changes = [], additions = 0, deletions = 0\<rparr> = ''a.py''
   \<and> file_path \<lparr>old_path = ''a.py'', new_path = [], changes = [], additions = 0, deletions = 0\<rparr> = []
   \<and> spec_extension_set [\<lparr>old_path = ''a.py'', new_path = [], changes = [], additions = 0, deletions = 0\<rparr>] = {''py''}
   \<and> extension_set [\<lparr>old_path = ''a.py'', new_path = [], changes = [], additions = 0, deletions = 0\<rparr>] = {}
   \<and> dom (extract_context_lines [\<lparr>old_path = ''a.py'', new_path = [], changes = [], additions = 0, deletions = 0\<rparr>] 3) = {[]}"
proof (intro conjI)
  show "parse_diff ''diff --git a/a.py b/'' =
     Inr [\<lparr>old_path = ''a.py'', new_path = [], changes = [], additions = 0, deletions = 0\<rparr>]"
    by code_simp
qed (simp_all add: spec_file_path_def file_path_def spec_extension_set_def extension_set_def
       add_extension_def extension_of_def lower_def lower_char_def extract_context_lines_def)

text \<open>
  C6, amended: for every list of parsed files, \<open>get_file_extensions\<close> selects the
  \<^verbatim>\<open>new_path\<close> of each file, empty or not (\<^verbatim>\<open>old_path\<close> is only the default for a dictionary
  that lacks the key, which no parsed file does), and lists the set of the lower-cased
  texts after the last dot of the selected paths that contain a dot, without duplicates;
  \<open>extract_context_lines\<close> keys its mapping by the same \<^verbatim>\<open>new_path\<close>.
\<close>

theorem get_file_extensions_spec:
  "file_path f = new_path f
   \<and> extension_set fs =
       (\<lambda>f. lower (last (str_split (CHR ''.'') (new_path f)))) `
         {f \<in> set fs. CHR ''.'' \<in> set (new_path f)}
   \<and> (CHR ''.'' \<in> set p \<longrightarrow>
        (\<exists>pre. p = pre @ CHR ''.'' # last (str_split (CHR ''.'') p) \<and>
               CHR ''.'' \<notin> set (last (str_split (CHR ''.'') p))))
   \<and> get_file_extensions to_list fs = to_list (extension_set fs)
   \<and> (set (to_list (extension_set fs)) = extension_set fs \<and> distinct (to_list (extension_set fs)) \<longrightarrow>
        set (get_file_extensions to_list fs) =
          (\<lambda>f. lower (last (str_split (CHR ''.'') (new_path f)))) `
            {f \<in> set fs. CHR ''.'' \<in> set (new_path f)}
        \<and> distinct (get_file_extensions to_list fs))
   \<and> dom (extract_context_lines fs cl) = new_path ` set fs"
  using last_str_split [of "CHR ''.''" p]
  by (simp add: file_path_new extension_set_eq [unfolded extension_of_def] get_file_extensions_def
      dom_extract_context_lines)

theorem get_file_extensions_witness:
  "CHR ''.'' \<in> set ''b/bar.PY''
   \<and> (\<exists>pre. ''b/bar.PY'' = pre @ ''.PY'')
   \<and> extension_set [new_file ''a/foo.py'' ''a/foo.py'', new_file ''b/bar.PY'' ''b/bar.PY'',
                       new_file ''c/noext'' ''c/noext''] = {''py''}
   \<and> set (sorted_list_of_set {''py''}) = {''py''} \<and> distinct (sorted_list_of_set {''py''})
   \<and> get_file_extensions sorted_list_of_set
        [new_file ''a/foo.py'' ''a/foo.py'', new_file ''b/bar.PY'' ''b/bar.PY'',
         new_file ''c/noext'' ''c/noext''] = [''py'']
   \<and> distinct (get_file_extensions sorted_list_of_set
        [new_file ''a/foo.py'' ''a/foo.py'', new_file ''b/bar.PY'' ''b/bar.PY'',
         new_file ''c/noext'' ''c/noext''])
   \<and> dom (extract_context_lines
        [new_file ''a/foo.py'' ''a/foo.py'', new_file ''b/bar.PY'' ''b/bar.PY'',
         new_file ''c/noext'' ''c/noext''] 3) = {''a/foo.py'', ''b/bar.PY'', ''c/noext''}"
proof -
  let ?fs = "[new_file ''a/foo.py'' ''a/foo.py'', new_file ''b/bar.PY'' ''b/bar.PY'',
              new_file ''c/noext'' ''c/noext'']"
  have e: "extension_set ?fs = {''py''}"
    by (simp add: extension_set_def add_extension_def file_path_def new_file_def lower_def
        lower_char_def)
  have l: "last (str_split (CHR ''.'') ''b/bar.PY'') = ''PY''"
    by simp
  have h: "set (sorted_list_of_set (extension_set ?fs)) = extension_set ?fs \<and>
           distinct (sorted_list_of_set (extension_set ?fs))"
    by (simp add: e)
  have dot: "CHR ''.'' \<in> set ''b/bar.PY''"
    by simp
  note t = get_file_extensions_spec [of "new_file ''a/foo.py'' ''a/foo.py''" ?fs "''b/bar.PY''"
      sorted_list_of_set 3]
  from t dot l have "\<exists>pre. ''b/bar.PY'' = pre @ ''.PY''"
    by auto
  moreover from t have "get_file_extensions sorted_list_of_set ?fs = [''py'']"
    by (simp add: e)
  moreover from t h have "distinct (get_file_extensions sorted_list_of_set ?fs)"
    by blast
  moreover from t have "dom (extract_context_lines ?fs 3) = {''a/foo.py'', ''b/bar.PY'', ''c/noext''}"
    by (simp add: new_file_def)
  ultimately show ?thesis
    using e dot by simp
qed

section \<open>The review prompt\<close>

lemma prompt_contains_line:
  assumes "parse_diff diff_content = Inr fs"
    and "line \<in> set (prompt_lines pr_title (dict_get pr_description []) (length fs)
              (fst (get_total_changes fs)) (snd (get_total_changes fs))
              (effective_extensions to_list fs file_extensions) diff_content)"
  shows "document_contains
           (create_code_review_prompt to_list diff_content pr_title pr_description file_extensions) line"
proof (cases "get_total_changes fs")
  case (Pair ta td)
  with assms show ?thesis
    by (simp add: create_code_review_prompt_def document_contains_def str_contains_join)
qed

lemma str_of_nat_0: "str_of_nat 0 = ''0''"
  by simp

lemma empty_prompt_lines:
  assumes "to_list {} = []"
  shows "create_code_review_prompt to_list [] ''T'' (Some []) None =
           Inr (join [nl] (prompt_lines ''T'' [] 0 0 0 [] []))"
  using assms
  by (simp add: create_code_review_prompt_def parse_diff_Nil get_total_changes_def
      effective_extensions_def get_file_extensions_def extension_set_def)

lemma supplied_empty_prompt_lines:
  "create_code_review_prompt sorted_list_of_set ''diff --git a/x.py b/x.py'' ''T'' (Some []) (Some []) =
     Inr (join [nl] (prompt_lines ''T'' [] 1 0 0 [''py''] ''diff --git a/x.py b/x.py''))"
proof -
  have p: "parse_diff ''diff --git a/x.py b/x.py'' = Inr [new_file ''x.py'' ''x.py'']"
    by code_simp
  have e: "extension_set [new_file ''x.py'' ''x.py''] = {''py''}"
    by (simp add: extension_set_def add_extension_def file_path_def new_file_def lower_def
        lower_char_def)
  show ?thesis
    by (simp add: create_code_review_prompt_def p get_total_changes_def effective_extensions_def
        get_file_extensions_def e) (simp add: new_file_def)
qed

text \<open>
  C9 as stated fails three times.  The call raises where \<open>parse_diff\<close> does, so not every
  diff text gets a document.  A caller who supplies the empty extension list gets the
  extensions derived from the diff, because \<^verbatim>\<open>if not file_extensions\<close> holds for the empty
  list: for the diff \<^verbatim>\<open>diff --git a/x.py b/x.py\<close> the field reads \<open>py\<close> and the document
  holds no \<open>Mixed\<close>.  And the statistics lines carry their bold markers: the document for
  the empty diff holds \<^verbatim>\<open>- **Files Modified:** 0\<close>, but neither the text
  \<^verbatim>\<open>Files Modified: 0\<close> nor \<^verbatim>\<open>Total Additions: 0\<close>.
\<close>

theorem create_code_review_prompt_counterexample:
  "create_code_review_prompt sorted_list_of_set
     (join [nl] [''diff --git a/x b/x'', ''@@ -'' @ replicate 4301 (CHR ''1'') @ '' +1 @@''])
     ''T'' None None = Inl ValueError
   \<and> document_contains
     (create_code_review_prompt sorted_list_of_set ''diff --git a/x.py b/x.py'' ''T'' (Some []) (Some []))
     ''- **Languages/Extensions:** py''
   \<and> \<not> document_contains
     (create_code_review_prompt sorted_list_of_set ''diff --git a/x.py b/x.py'' ''T'' (Some []) (Some []))
     ''Mixed''
   \<and> document_contains (create_code_review_prompt sorted_list_of_set [] ''T'' (Some []) None)
     ''- **Files Modified:** 0''
   \<and> \<not> document_contains (create_code_review_prompt sorted_list_of_set [] ''T'' (Some []) None)
     ''Files Modified: 0''
   \<and> \<not> document_contains (create_code_review_prompt sorted_list_of_set [] ''T'' (Some []) None)
     ''Total Additions: 0''"
proof (intro conjI)
  show "create_code_review_prompt sorted_list_of_set
     (join [nl] [''diff --git a/x b/x'', ''@@ -'' @ replicate 4301 (CHR ''1'') @ '' +1 @@''])
     ''T'' None None = Inl ValueError"
    using parse_diff_long_header unfolding long_header_def create_code_review_prompt_def
    by (simp only: sum.case)
  have e: "sorted_list_of_set ({} :: string set) = []" by simp
  note d2 = empty_prompt_lines [of sorted_list_of_set, OF e]
  show "document_contains
     (create_code_review_prompt sorted_list_of_set ''diff --git a/x.py b/x.py'' ''T'' (Some []) (Some []))
     ''- **Languages/Extensions:** py''"
    unfolding supplied_empty_prompt_lines document_contains_def sum.case
    by (rule str_contains_join) (simp add: prompt_lines_def)
  show "\<not> document_contains
     (create_code_review_prompt sorted_list_of_set ''diff --git a/x.py b/x.py'' ''T'' (Some []) (Some []))
     ''Mixed''"
    unfolding supplied_empty_prompt_lines document_contains_def sum.case
    by (rule not_contains_join) (simp_all add: nl_def prompt_lines_def prompt_tail_def str_of_int_def)
  show "document_contains (create_code_review_prompt sorted_list_of_set [] ''T'' (Some []) None)
     ''- **Files Modified:** 0''"
    unfolding d2 document_contains_def sum.case
    by (rule str_contains_join) (simp add: prompt_lines_def)
  show "\<not> document_contains (create_code_review_prompt sorted_list_of_set [] ''T'' (Some []) None)
     ''Files Modified: 0''"
    unfolding d2 document_contains_def sum.case
    by (rule not_contains_join) (simp_all add: nl_def prompt_lines_def prompt_tail_def str_of_int_def)
  show "\<not> document_contains (create_code_review_prompt sorted_list_of_set [] ''T'' (Some []) None)
     ''Total Additions: 0''"
    unfolding d2 document_contains_def sum.case
    by (rule not_contains_join) (simp_all add: nl_def prompt_lines_def prompt_tail_def str_of_int_def)
qed

text \<open>
  C9, amended: for every title and every diff text that \<open>parse_diff\<close> parses (the call
  raises where \<open>parse_diff\<close> raises) the call returns a document; it holds the line
  \<^verbatim>\<open>**Description:** No description provided\<close> whenever the description is missing or
  empty, and the line \<^verbatim>\<open>- **Languages/Extensions:** Mixed\<close> whenever the effective
  extension list is empty, which is the caller's list when that is not empty and the list
  derived from the diff otherwise (so also when the caller supplies the empty list).  For
  the empty diff, the title \<open>T\<close> and the empty description the document holds the lines
  \<^verbatim>\<open>- **Files Modified:** 0\<close>, \<^verbatim>\<open>- **Total Additions:** 0\<close>,
  \<^verbatim>\<open>- **Languages/Extensions:** Mixed\<close> and \<^verbatim>\<open>**Description:** No description provided\<close>
  (Python lists the empty set as the empty list).
\<close>

theorem create_code_review_prompt_spec:
  "(parse_diff diff_content = Inl err \<longrightarrow>
      create_code_review_prompt to_list diff_content pr_title pr_description file_extensions
        = Inl err)
   \<and> (parse_diff diff_content = Inr fs \<longrightarrow>
        (\<exists>doc. create_code_review_prompt to_list diff_content pr_title pr_description
                 file_extensions = Inr doc)
        \<and> (pr_description = None \<or> pr_description = Some [] \<longrightarrow>
             document_contains
               (create_code_review_prompt to_list diff_content pr_title pr_description
                  file_extensions)
               ''**Description:** No description provided'')
        \<and> (effective_extensions to_list fs file_extensions = [] \<longrightarrow>
             document_contains
               (create_code_review_prompt to_list diff_content pr_title pr_description
                  file_extensions)
               ''- **Languages/Extensions:** Mixed''))
   \<and> (file_extensions = None \<or> file_extensions = Some [] \<longrightarrow>
        effective_extensions to_list fs file_extensions = get_file_extensions to_list fs)
   \<and> (file_extensions = Some (x # xs) \<longrightarrow>
        effective_extensions to_list fs file_extensions = x # xs)
   \<and> (to_list {} = [] \<longrightarrow>
        document_contains (create_code_review_prompt to_list [] ''T'' (Some []) None)
          ''- **Files Modified:** 0''
        \<and> document_contains (create_code_review_prompt to_list [] ''T'' (Some []) None)
          ''- **Total Additions:** 0''
        \<and> document_contains (create_code_review_prompt to_list [] ''T'' (Some []) None)
          ''- **Languages/Extensions:** Mixed''
        \<and> document_contains (create_code_review_prompt to_list [] ''T'' (Some []) None)
          ''**Description:** No description provided'')"
proof (intro conjI impI)
  show "create_code_review_prompt to_list diff_content pr_title pr_description file_extensions
        = Inl err" if "parse_diff diff_content = Inl err"
    using that by (simp add: create_code_review_prompt_def)
  show "\<exists>doc. create_code_review_prompt to_list diff_content pr_title pr_description
                 file_extensions = Inr doc" if "parse_diff diff_content = Inr fs"
    using that by (simp add: create_code_review_prompt_def split: prod.splits)
  show "document_contains
          (create_code_review_prompt to_list diff_content pr_title pr_description file_extensions)
          ''**Description:** No description provided''"
    if "parse_diff diff_content = Inr fs" "pr_description = None \<or> pr_description = Some []"
    using that(2) by (intro prompt_contains_line [OF that(1)]) (auto simp: prompt_lines_def)
  show "document_contains
          (create_code_review_prompt to_list diff_content pr_title pr_description file_extensions)
          ''- **Languages/Extensions:** Mixed''"
    if "parse_diff diff_content = Inr fs" "effective_extensions to_list fs file_extensions = []"
    using that(2) by (intro prompt_contains_line [OF that(1)]) (auto simp: prompt_lines_def)
  show "effective_extensions to_list fs file_extensions = get_file_extensions to_list fs"
    if "file_extensions = None \<or> file_extensions = Some []"
    using that by (auto simp: effective_extensions_def)
  show "effective_extensions to_list fs file_extensions = x # xs"
    if "file_extensions = Some (x # xs)"
    using that by (simp add: effective_extensions_def)
next
  assume e: "to_list {} = []"
  have l: "x \<in> set (prompt_lines ''T'' [] 0 0 0 [] []) \<Longrightarrow>
           document_contains (create_code_review_prompt to_list [] ''T'' (Some []) None) x" for x
    using empty_prompt_lines [of to_list] e
    by (simp add: document_contains_def str_contains_join)
  show "document_contains (create_code_review_prompt to_list [] ''T'' (Some []) None)
          ''- **Files Modified:** 0''"
    by (rule l) (simp add: prompt_lines_def)
  show "document_contains (create_code_review_prompt to_list [] ''T'' (Some []) None)
          ''- **Total Additions:** 0''"
    by (rule l) (simp add: prompt_lines_def str_of_int_def)
  show "document_contains (create_code_review_prompt to_list [] ''T'' (Some []) None)
          ''- **Languages/Extensions:** Mixed''"
    by (rule l) (simp add: prompt_lines_def)
  show "document_contains (create_code_review_prompt to_list [] ''T'' (Some []) None)
          ''**Description:** No description provided''"
    by (rule l) (simp add: prompt_lines_def)
qed

theorem create_code_review_prompt_witness:
  "sorted_list_of_set ({} :: string set) = []
   \<and> parse_diff [] = Inr []
   \<and> effective_extensions sorted_list_of_set [] None = []
   \<and> document_contains (create_code_review_prompt sorted_list_of_set [] ''T'' None None)
         ''**Description:** No description provided''
   \<and> document_contains (create_code_review_prompt sorted_list_of_set [] ''T'' (Some []) None)
         ''- **Languages/Extensions:** Mixed''
   \<and> document_contains (create_code_review_prompt sorted_list_of_set [] ''T'' (Some []) None)
         ''- **Files Modified:** 0''
   \<and> document_contains (create_code_review_prompt sorted_list_of_set [] ''T'' (Some []) None)
         ''- **Total Additions:** 0''
   \<and> effective_extensions sorted_list_of_set [new_file ''x.py'' ''x.py''] (Some [''go'']) = [''go'']"
proof -
  have e: "sorted_list_of_set ({} :: string set) = []" by simp
  have f: "effective_extensions sorted_list_of_set [] None = []"
    by (simp add: effective_extensions_def get_file_extensions_def extension_set_def)
  from create_code_review_prompt_spec [where to_list = sorted_list_of_set and diff_content = "[]"
      and pr_title = "''T''" and pr_description = None and file_extensions = None and fs = "[]"]
    parse_diff_Nil
  have 1: "document_contains (create_code_review_prompt sorted_list_of_set [] ''T'' None None)
         ''**Description:** No description provided''"
    by simp
  from create_code_review_prompt_spec [where to_list = sorted_list_of_set and diff_content = "[]"
      and pr_title = "''T''" and pr_description = "Some []" and file_extensions = None
      and fs = "[]"] e f parse_diff_Nil
  have 2: "document_contains (create_code_review_prompt sorted_list_of_set [] ''T'' (Some []) None)
         ''- **Languages/Extensions:** Mixed''"
      "document_contains (create_code_review_prompt sorted_list_of_set [] ''T'' (Some []) None)
         ''- **Files Modified:** 0''"
      "document_contains (create_code_review_prompt sorted_list_of_set [] ''T'' (Some []) None)
         ''- **Total Additions:** 0''"
    by blast+
  from create_code_review_prompt_spec [where to_list = sorted_list_of_set
      and file_extensions = "Some [''go'']" and fs = "[new_file ''x.py'' ''x.py'']"
      and x = "''go''" and xs = "[]"]
  have 3: "effective_extensions sorted_list_of_set [new_file ''x.py'' ''x.py''] (Some [''go'']) = [''go'']"
    by simp
  show ?thesis
    using e f 1 2 3 parse_diff_Nil by simp
qed

section \<open>The counters of a file\<close>

text \<open>
  Two facts about the counters, for every input that is parsed: each file of the result
  has as \<open>additions\<close> and \<open>deletions\<close> the numbers of addition and deletion lines in its
  hunks (\<open>parse_diff_counters\<close>), and when every \<^verbatim>\<open>diff --git\<close> line of the input matches
  the two-path form, the totals are the numbers of addition and deletion lines that the
  scan of the specification counts in the input (\<open>total_changes_well_formed\<close>).
\<close>

lemma append_line_lines:
  assumes "append_line l f = Inr f'"
  shows "concat (map lines (changes f')) = concat (map lines (changes f)) @ [l]"
    and "additions f' = additions f" and "deletions f' = deletions f"
proof -
  from assms have ne: "changes f \<noteq> []"
    by (auto simp: append_line_def split: list.splits)
  then have c: "changes f = butlast (changes f) @ [last (changes f)]" by simp
  from assms ne have f': "f' = f\<lparr>changes := butlast (changes f) @
         [(last (changes f))\<lparr>lines := lines (last (changes f)) @ [l]\<rparr>]\<rparr>"
    by (auto simp: append_line_def split: list.splits)
  have "concat (map lines (changes f)) =
          concat (map lines (butlast (changes f))) @ lines (last (changes f))"
    by (subst c) simp
  with f' show "concat (map lines (changes f')) = concat (map lines (changes f)) @ [l]"
    by simp
  from f' show "additions f' = additions f" "deletions f' = deletions f" by simp_all
qed

lemma append_line_counts:
  assumes "append_line l f = Inr f'"
  shows "count_kind k f' = count_kind k f + (if ltype l = k then 1 else 0)"
    and "additions f' = additions f" and "deletions f' = deletions f"
  using append_line_lines [OF assms] by (simp_all add: count_kind_def)

lemma code_line_counters:
  assumes "code_line line f = Inr f'" "counters_ok f"
  shows "counters_ok f'"
proof (cases "startswith line ''+''")
  case True
  with assms(1) obtain g where g: "append_line \<lparr>ltype = Addition, content = drop 1 line\<rparr> f = Inr g"
      and f': "f' = g\<lparr>additions := additions g + 1\<rparr>"
    by (cases "append_line \<lparr>ltype = Addition, content = drop 1 line\<rparr> f")
       (simp_all add: code_line_def)
  from append_line_counts [OF g] assms(2) show ?thesis
    unfolding f' counters_ok_def by (simp add: count_kind_def)
next
  case plus: False
  show ?thesis
  proof (cases "startswith line ''-''")
    case True
    with plus assms(1) obtain g where
        g: "append_line \<lparr>ltype = Deletion, content = drop 1 line\<rparr> f = Inr g"
        and f': "f' = g\<lparr>deletions := deletions g + 1\<rparr>"
      by (cases "append_line \<lparr>ltype = Deletion, content = drop 1 line\<rparr> f")
         (simp_all add: code_line_def)
    from append_line_counts [OF g] assms(2) show ?thesis
      unfolding f' counters_ok_def by (simp add: count_kind_def)
  next
    case minus: False
    show ?thesis
    proof (cases "startswith line '' ''")
      case True
      with plus minus assms(1)
      have g: "append_line \<lparr>ltype = Context, content = drop 1 line\<rparr> f = Inr f'"
        by (simp add: code_line_def)
      from append_line_counts [OF g] assms(2) show ?thesis
        unfolding counters_ok_def by simp
    next
      case False
      with plus minus assms show ?thesis by (simp add: code_line_def)
    qed
  qed
qed

lemma add_hunk_counters: "counters_ok f \<Longrightarrow> counters_ok (add_hunk hi f)"
  by (simp add: counters_ok_def count_kind_def)

lemma new_file_counters: "counters_ok (new_file old new)"
  by (simp add: counters_ok_def count_kind_def new_file_def)

lemma list_all_update:
  "list_all P xs \<Longrightarrow> (a < length xs \<Longrightarrow> P v) \<Longrightarrow> list_all P (xs[a := v])"
  by (auto simp: list_all_length nth_update_if)

lemma parse_line_cases:
  assumes "parse_line st line = Inr st'"
  obtains
    (marker) old new where "startswith line ''diff --git''"
      "match_file_marker line = Some (old, new)"
      "st' = (flush_current st)\<lparr>heap := heap st @ [new_file old new],
                                  current_file := Some (length (heap st))\<rparr>"
  | (bad_marker) "startswith line ''diff --git''" "match_file_marker line = None"
      "st' = flush_current st"
  | (path_line) "\<not> startswith line ''diff --git''"
      "startswith line ''+++'' \<or> startswith line ''---''" "st' = st"
  | (no_file) "\<not> startswith line ''diff --git''"
      "\<not> startswith line ''+++''" "\<not> startswith line ''---''"
      "current_file st = None" "st' = st"
  | (hunk) a hi where "\<not> startswith line ''diff --git''"
      "\<not> startswith line ''+++''" "\<not> startswith line ''---''" "startswith line ''@@''"
      "current_file st = Some a"
      "st' = st\<lparr>heap := (heap st)[a := add_hunk hi (heap st ! a)]\<rparr>"
  | (no_hunk) a where "\<not> startswith line ''diff --git''"
      "\<not> startswith line ''+++''" "\<not> startswith line ''---''" "\<not> startswith line ''@@''"
      "current_file st = Some a" "changes (heap st ! a) = []" "st' = st"
  | (code) a f' where "\<not> startswith line ''diff --git''"
      "\<not> startswith line ''+++''" "\<not> startswith line ''---''" "\<not> startswith line ''@@''"
      "current_file st = Some a" "changes (heap st ! a) \<noteq> []"
      "code_line line (heap st ! a) = Inr f'"
      "st' = st\<lparr>heap := (heap st)[a := f']\<rparr>"
proof (cases "startswith line ''diff --git''")
  case True
  show ?thesis
  proof (cases "match_file_marker line")
    case None
    with True assms have "st' = flush_current st"
      by (simp add: parse_line_def flush_current_def split: option.splits)
    with True None show ?thesis by (rule bad_marker)
  next
    case (Some p)
    obtain old new where p: "p = (old, new)" by (cases p)
    with True Some assms
    have "st' = (flush_current st)\<lparr>heap := heap st @ [new_file old new],
                                  current_file := Some (length (heap st))\<rparr>"
      by (auto simp: parse_line_def flush_current_def split: option.splits)
    with True Some [unfolded p] show ?thesis by (rule marker)
  qed
next
  case False
  show ?thesis
  proof (cases "startswith line ''+++'' \<or> startswith line ''---''")
    case True
    with False assms have "st' = st" by (simp add: parse_line_def)
    with False True show ?thesis by (rule path_line)
  next
    case nopm: False
    then have n1: "\<not> startswith line ''+++''" and n2: "\<not> startswith line ''---''"
      by simp_all
    show ?thesis
    proof (cases "current_file st")
      case None
      with False nopm assms have "st' = st"
        by (auto simp: parse_line_def split: if_splits)
      with False n1 n2 None show ?thesis by (rule no_file)
    next
      case (Some a)
      show ?thesis
      proof (cases "startswith line ''@@''")
        case True
        with False nopm Some assms obtain hi where
          "st' = st\<lparr>heap := (heap st)[a := add_hunk hi (heap st ! a)]\<rparr>"
          by (cases "parse_hunk_header line") (auto simp: parse_line_def)
        with False n1 n2 True Some show ?thesis by (rule hunk)
      next
        case noat: False
        show ?thesis
        proof (cases "changes (heap st ! a) = []")
          case True
          with False nopm Some noat assms have "st' = st" by (simp add: parse_line_def)
          with False n1 n2 noat Some True show ?thesis by (rule no_hunk)
        next
          case ne: False
          with False nopm Some noat assms obtain f' where
            f': "code_line line (heap st ! a) = Inr f'"
              "st' = st\<lparr>heap := (heap st)[a := f']\<rparr>"
            by (cases "code_line line (heap st ! a)") (auto simp: parse_line_def)
          from False n1 n2 noat Some ne f' show ?thesis by (rule code)
        qed
      qed
    qed
  qed
qed

lemma flush_current_fields [simp]:
  "heap (flush_current st) = heap st"
  "current_file (flush_current st) = current_file st"
  "files (flush_current st) =
     (case current_file st of Some a \<Rightarrow> files st @ [a] | None \<Rightarrow> files st)"
  by (simp_all add: flush_current_def split: option.splits)

lemma parse_line_counters:
  assumes "parse_line st line = Inr st'" "list_all counters_ok (heap st)"
  shows "list_all counters_ok (heap st')"
proof -
  have nth: "a < length (heap st) \<Longrightarrow> counters_ok (heap st ! a)" for a
    using assms(2) by (simp add: list_all_length)
  from assms(1) show ?thesis
  proof (cases rule: parse_line_cases)
    case (marker old new)
    with assms(2) show ?thesis by (simp add: new_file_counters)
  next
    case bad_marker
    with assms(2) show ?thesis by simp
  next
    case path_line
    with assms(2) show ?thesis by simp
  next
    case no_file
    with assms(2) show ?thesis by simp
  next
    case (no_hunk a)
    with assms(2) show ?thesis by simp
  next
    case (hunk a hi)
    with assms(2) nth show ?thesis
      by (simp add: list_all_update add_hunk_counters)
  next
    case (code a f')
    with assms(2) nth show ?thesis
      by (auto intro!: list_all_update intro: code_line_counters)
  qed
qed

lemma parse_line_refs:
  assumes "parse_line st line = Inr st'" "refs_ok st"
  shows "refs_ok st'"
  using assms(1)
proof (cases rule: parse_line_cases)
  case (marker old new)
  with assms(2) show ?thesis
    by (auto simp: refs_ok_def list_all_iff split: option.splits intro: less_SucI)
next
  case bad_marker
  with assms(2) show ?thesis
    by (auto simp: refs_ok_def list_all_iff split: option.splits)
next
  case path_line
  with assms(2) show ?thesis by simp
next
  case no_file
  with assms(2) show ?thesis by simp
next
  case (no_hunk a)
  with assms(2) show ?thesis by simp
next
  case (hunk a hi)
  with assms(2) show ?thesis by (simp add: refs_ok_def)
next
  case (code a f')
  with assms(2) show ?thesis by (simp add: refs_ok_def)
qed

lemma parse_lines_invariant:
  assumes "parse_lines st ls = Inr st'" "list_all counters_ok (heap st)" "refs_ok st"
  shows "list_all counters_ok (heap st') \<and> refs_ok st'"
  using assms
proof (induction ls arbitrary: st)
  case Nil
  then show ?case by simp
next
  case (Cons l ls)
  then obtain st1 where s: "parse_line st l = Inr st1" "parse_lines st1 ls = Inr st'"
    by (auto split: sum.splits)
  with Cons show ?case
    by (meson parse_line_counters parse_line_refs)
qed

lemma count_kind_nonneg: "0 \<le> count_kind k f"
  by (simp add: count_kind_def)

lemma parse_diff_counters:
  assumes "parse_diff diff_content = Inr fs"
  shows "list_all (\<lambda>f. additions f = count_kind Addition f \<and>
                        deletions f = count_kind Deletion f \<and>
                        0 \<le> additions f \<and> 0 \<le> deletions f) fs"
proof -
  from assms obtain st where st: "parse_lines init_state (str_split nl diff_content) = Inr st"
      and fs: "fs = finish st"
    by (auto simp: parse_diff_def split: sum.splits)
  have "list_all counters_ok (heap init_state)" "refs_ok init_state"
    by (simp_all add: init_state_def refs_ok_def)
  with st have inv: "list_all counters_ok (heap st)" "refs_ok st"
    using parse_lines_invariant by blast+
  have "counters_ok f" if "f \<in> set fs" for f
  proof -
    from that fs obtain a where "f = heap st ! a" "a < length (heap st)"
      using inv(2)
      by (auto simp: finish_def refs_ok_def list_all_iff split: option.splits)
    with inv(1) show ?thesis by (simp add: list_all_length)
  qed
  then show ?thesis
    by (auto simp: list_all_iff counters_ok_def count_kind_nonneg)
qed

lemma sum_list_update:
  fixes f :: "'a \<Rightarrow> int"
  assumes "a < length xs"
  shows "sum_list (map f (xs[a := v])) = sum_list (map f xs) - f (xs ! a) + f v"
  using assms
proof (induction xs arbitrary: a)
  case Nil
  then show ?case by simp
next
  case (Cons x xs)
  then show ?case by (cases a) auto
qed

lemma totals_update:
  assumes "a < length h"
  shows "get_total_changes (h[a := v]) =
           add2 (get_total_changes h)
             (additions v - additions (h ! a), deletions v - deletions (h ! a))"
  using assms by (simp add: get_total_changes_def add2_def sum_list_update)

lemma totals_append: "get_total_changes (h @ [new_file old new]) = get_total_changes h"
  by (simp add: get_total_changes_def new_file_def)

lemma code_line_effect:
  assumes "code_line line f = Inr f'" "changes f \<noteq> []"
  shows "changes f' \<noteq> []"
    and "additions f' = additions f + (if startswith line ''+'' then 1 else 0)"
    and "deletions f' = deletions f +
           (if \<not> startswith line ''+'' \<and> startswith line ''-'' then 1 else 0)"
proof -
  have ne: "changes g \<noteq> [] \<and> additions g = additions f \<and> deletions g = deletions f"
    if "append_line l f = Inr g" for l g
    using that by (auto simp: append_line_def split: list.splits)
  have "changes f' \<noteq> [] \<and>
        additions f' = additions f + (if startswith line ''+'' then 1 else 0) \<and>
        deletions f' = deletions f +
           (if \<not> startswith line ''+'' \<and> startswith line ''-'' then 1 else 0)"
  proof (cases "startswith line ''+''")
    case True
    with assms obtain g where "append_line \<lparr>ltype = Addition, content = drop 1 line\<rparr> f = Inr g"
        "f' = g\<lparr>additions := additions g + 1\<rparr>"
      by (cases "append_line \<lparr>ltype = Addition, content = drop 1 line\<rparr> f")
         (simp_all add: code_line_def)
    with True ne show ?thesis by auto
  next
    case plus: False
    show ?thesis
    proof (cases "startswith line ''-''")
      case True
      with plus assms obtain g where
          "append_line \<lparr>ltype = Deletion, content = drop 1 line\<rparr> f = Inr g"
          "f' = g\<lparr>deletions := deletions g + 1\<rparr>"
        by (cases "append_line \<lparr>ltype = Deletion, content = drop 1 line\<rparr> f")
           (simp_all add: code_line_def)
      with plus True ne show ?thesis by auto
    next
      case minus: False
      show ?thesis
      proof (cases "startswith line '' ''")
        case True
        with plus minus assms
        have "append_line \<lparr>ltype = Context, content = drop 1 line\<rparr> f = Inr f'"
          by (simp add: code_line_def)
        with plus minus ne show ?thesis by auto
      next
        case False
        with plus minus assms have "f' = f" by (simp add: code_line_def)
        with plus minus assms(2) show ?thesis by simp
      qed
    qed
  qed
  then show "changes f' \<noteq> []"
    and "additions f' = additions f + (if startswith line ''+'' then 1 else 0)"
    and "deletions f' = deletions f +
           (if \<not> startswith line ''+'' \<and> startswith line ''-'' then 1 else 0)"
    by simp_all
qed

lemma linear_finish: "linear st \<Longrightarrow> finish st = heap st"
proof (cases "current_file st")
  case None
  assume "linear st"
  with None show ?thesis by (simp add: linear_def finish_def)
next
  case (Some a)
  assume "linear st"
  with Some have l: "length (heap st) = Suc a" and f: "files st = [0..<a]"
    by (simp_all add: linear_def)
  have "map ((!) (heap st)) [0..<Suc a] = heap st"
    using l map_nth [of "heap st"] by simp
  with Some f show ?thesis by (simp add: finish_def)
qed

lemma parse_line_linear:
  assumes "parse_line st l = Inr st'" "linear st" "good_marker l"
  shows "linear st' \<and>
         add2 (get_total_changes (heap st')) (spec_scan (in_file st') (in_hunk st') ls) =
         add2 (get_total_changes (heap st)) (spec_scan (in_file st) (in_hunk st) (l # ls))"
  using assms(1)
proof (cases rule: parse_line_cases)
  case (marker old new)
  have "files (flush_current st) = [0..<length (heap st)]"
  proof (cases "current_file st")
    case None
    with assms(2) show ?thesis by (simp add: linear_def)
  next
    case (Some a)
    with assms(2) have "length (heap st) = Suc a" "files st = [0..<a]"
      by (simp_all add: linear_def)
    with Some show ?thesis by simp
  qed
  moreover have "changes (new_file old new) = []"
    by (simp add: new_file_def)
  ultimately show ?thesis
    using marker by (simp add: linear_def in_file_def in_hunk_def totals_append)
next
  case bad_marker
  with assms(3) show ?thesis by (simp add: good_marker_def)
next
  case path_line
  with assms(2) show ?thesis by auto
next
  case no_file
  with assms(2) show ?thesis by (simp add: in_file_def in_hunk_def)
next
  case (hunk a hi)
  from assms(2) hunk have a: "a < length (heap st)" by (simp add: linear_def)
  with hunk assms(2) show ?thesis
    by (simp add: linear_def in_file_def in_hunk_def totals_update add2_def)
next
  case (no_hunk a)
  with assms(2) show ?thesis by (simp add: in_file_def in_hunk_def)
next
  case (code a f')
  from assms(2) code have a: "a < length (heap st)" by (simp add: linear_def)
  note e = code_line_effect [OF code(7) code(6)]
  obtain n m where nm: "spec_scan True True ls = (n, m)" by (cases "spec_scan True True ls")
  from code a e assms(2) nm show ?thesis
    by (simp add: linear_def in_file_def in_hunk_def totals_update add2_def)
qed

lemma parse_lines_linear:
  assumes "parse_lines st ls = Inr st'" "linear st" "list_all good_marker ls"
  shows "linear st' \<and>
         get_total_changes (heap st') =
           add2 (get_total_changes (heap st)) (spec_scan (in_file st) (in_hunk st) ls)"
  using assms
proof (induction ls arbitrary: st)
  case Nil
  then show ?case by (simp add: add2_def)
next
  case (Cons l ls)
  then obtain st1 where s: "parse_line st l = Inr st1" "parse_lines st1 ls = Inr st'"
    by (auto split: sum.splits)
  from Cons.prems have g: "good_marker l" "list_all good_marker ls" by simp_all
  from parse_line_linear [OF s(1) Cons.prems(2) g(1), of ls]
  have 1: "linear st1" and
    2: "add2 (get_total_changes (heap st1)) (spec_scan (in_file st1) (in_hunk st1) ls) =
        add2 (get_total_changes (heap st)) (spec_scan (in_file st) (in_hunk st) (l # ls))"
    by simp_all
  from Cons.IH [OF s(2) 1 g(2)] 2 show ?case by simp
qed

lemma total_changes_well_formed:
  assumes "list_all good_marker (str_split nl diff_content)" "parse_diff diff_content = Inr fs"
  shows "get_total_changes fs = spec_count_changes diff_content"
proof -
  from assms(2) obtain st where st: "parse_lines init_state (str_split nl diff_content) = Inr st"
      and fs: "fs = finish st"
    by (auto simp: parse_diff_def split: sum.splits)
  have "linear init_state" by (simp add: linear_def init_state_def)
  from parse_lines_linear [OF st this assms(1)]
  have "linear st" and
    t: "get_total_changes (heap st) =
          add2 (get_total_changes (heap init_state))
            (spec_scan (in_file init_state) (in_hunk init_state) (str_split nl diff_content))"
    by simp_all
  from t have "get_total_changes (heap st) = spec_count_changes diff_content"
    by (simp add: init_state_def in_file_def in_hunk_def get_total_changes_def add2_def
        spec_count_changes_def)
  with fs \<open>linear st\<close> show ?thesis
    by (simp add: linear_finish)
qed

section \<open>A marker line that does not match\<close>

text \<open>
  C4 does not hold of the code.  A \<^verbatim>\<open>diff --git\<close> line that does not match the two-path
  form appends the current file to \<^verbatim>\<open>files\<close> and leaves it current.  On the four lines
  below the file is in \<^verbatim>\<open>files\<close> after the third line, with no line in its hunk and
  \<open>additions = 0\<close>; the fourth line is then stored in that same file and counted; at the
  end of the input the file is appended a second time.
\<close>

theorem parse_diff_reappends_file:
  "parse_lines init_state [''diff --git a/x b/x'', ''@@ -1 +1 @@'', ''diff --git broken''] =
     Inr \<lparr>heap = [\<lparr>old_path = ''x'', new_path = ''x'',
                    changes = [\<lparr>ctype = ''hunk'',
                                info = Some \<lparr>old_start = 1, old_count = 1, new_start = 1, new_count = 1\<rparr>,
                                lines = []\<rparr>],
                    additions = 0, deletions = 0\<rparr>],
          files = [0], current_file = Some 0\<rparr>
   \<and> parse_lines init_state
       [''diff --git a/x b/x'', ''@@ -1 +1 @@'', ''diff --git broken'', ''+late''] =
     Inr \<lparr>heap = [\<lparr>old_path = ''x'', new_path = ''x'',
                    changes = [\<lparr>ctype = ''hunk'',
                                info = Some \<lparr>old_start = 1, old_count = 1, new_start = 1, new_count = 1\<rparr>,
                                lines = [\<lparr>ltype = Addition, content = ''late''\<rparr>]\<rparr>],
                    additions = 1, deletions = 0\<rparr>],
          files = [0], current_file = Some 0\<rparr>
   \<and> parse_diff (join [nl]
       [''diff --git a/x b/x'', ''@@ -1 +1 @@'', ''diff --git broken'', ''+late'']) =
     Inr [\<lparr>old_path = ''x'', new_path = ''x'',
           changes = [\<lparr>ctype = ''hunk'',
                       info = Some \<lparr>old_start = 1, old_count = 1, new_start = 1, new_count = 1\<rparr>,
                       lines = [\<lparr>ltype = Addition, content = ''late''\<rparr>]\<rparr>],
           additions = 1, deletions = 0\<rparr>,
          \<lparr>old_path = ''x'', new_path = ''x'',
           changes = [\<lparr>ctype = ''hunk'',
                       info = Some \<lparr>old_start = 1, old_count = 1, new_start = 1, new_count = 1\<rparr>,
                       lines = [\<lparr>ltype = Addition, content = ''late''\<rparr>]\<rparr>],
           additions = 1, deletions = 0\<rparr>]"
  by code_simp

text \<open>
  C1 does not hold of the code for every input, by the same defect.  The diff below has
  one addition line and no deletion line; its file is appended at the marker that does
  not match and again at the end of the input, and \<open>get_total_changes\<close> returns
  \<open>(2, 0)\<close>.
\<close>

theorem total_changes_counts_twice:
  "spec_count_changes (join [nl] [''diff --git a/x b/x'', ''@@ -1 +1 @@'', ''+a'', ''diff --git broken''])
     = (1, 0)
   \<and> parse_diff (join [nl] [''diff --git a/x b/x'', ''@@ -1 +1 @@'', ''+a'', ''diff --git broken'']) =
     Inr [\<lparr>old_path = ''x'', new_path = ''x'',
           changes = [\<lparr>ctype = ''hunk'',
                       info = Some \<lparr>old_start = 1, old_count = 1, new_start = 1, new_count = 1\<rparr>,
                       lines = [\<lparr>ltype = Addition, content = ''a''\<rparr>]\<rparr>],
           additions = 1, deletions = 0\<rparr>,
          \<lparr>old_path = ''x'', new_path = ''x'',
           changes = [\<lparr>ctype = ''hunk'',
                       info = Some \<lparr>old_start = 1, old_count = 1, new_start = 1, new_count = 1\<rparr>,
                       lines = [\<lparr>ltype = Addition, content = ''a''\<rparr>]\<rparr>],
           additions = 1, deletions = 0\<rparr>]
   \<and> get_total_changes
       [\<lparr>old_path = ''x'', new_path = ''x'',
           changes = [\<lparr>ctype = ''hunk'',
                       info = Some \<lparr>old_start = 1, old_count = 1, new_start = 1, new_count = 1\<rparr>,
                       lines = [\<lparr>ltype = Addition, content = ''a''\<rparr>]\<rparr>],
           additions = 1, deletions = 0\<rparr>,
          \<lparr>old_path = ''x'', new_path = ''x'',
           changes = [\<lparr>ctype = ''hunk'',
                       info = Some \<lparr>old_start = 1, old_count = 1, new_start = 1, new_count = 1\<rparr>,
                       lines = [\<lparr>ltype = Addition, content = ''a''\<rparr>]\<rparr>],
           additions = 1, deletions = 0\<rparr>] = (2, 0)"
  by code_simp

end
